theory Spec2Isabelle
  imports Main "HOL-Library.Sublist"
begin

section \<open>The terminal chat client (frontend/js/terminal.js)\<close>

text \<open>
  The class \<open>Terminal\<close> is embedded as a record of its fields and of the parts of the
  page and of the browser it reads and writes, with one function per method.  An
  \<open>async\<close> method is cut at its \<open>await\<close>: the part before it runs with the event
  that calls the method, the part after it runs with the event that settles the
  promise.  Between two events nothing runs (one thread, run to completion).

  A text is a \<open>string\<close>: the bytes of its UTF-8 form, so that the ASCII markers of the
  protocol are the characters one reads in the source and the Korean literals of the
  source are written by their bytes.  Styling and scrolling (\<open>scrollToBottom\<close>,
  \<open>scrollIntoView\<close>, the cursor span, \<open>alt\<close> texts) are left out.
\<close>

subsection \<open>String operations of the platform\<close>

definition newline :: char where
  "newline = CHR 0x0A"

text \<open>\<open>text.split('\n')\<close>: the segments between line feeds, never an empty list.\<close>

fun split_nl :: "string \<Rightarrow> string list" where
  "split_nl [] = [[]]"
| "split_nl (c # cs) =
     (if c = newline then [] # split_nl cs
      else (case split_nl cs of
              [] \<Rightarrow> [[c]]
            | l # ls \<Rightarrow> (c # l) # ls))"

text \<open>\<open>line.startsWith(p)\<close> and \<open>line.slice(n)\<close>.\<close>

definition startsWith :: "string \<Rightarrow> string \<Rightarrow> bool" where
  "startsWith s p = prefix p s"

definition slice_from :: "nat \<Rightarrow> string \<Rightarrow> string" where
  "slice_from n s = drop n s"

text \<open>
  \<open>String.prototype.trim\<close> removes the white space and line terminator code points
  of ECMAScript from both ends.  In UTF-8 these are the byte sequences below (U+0009 to
  U+000D, U+0020, U+00A0, U+1680, U+2000 to U+200A, U+2028, U+2029, U+202F, U+205F,
  U+3000, U+FEFF).
\<close>

definition white_space :: "string list" where
  "white_space =
     [[CHR 0x09], [CHR 0x0A], [CHR 0x0B], [CHR 0x0C], [CHR 0x0D], [CHR 0x20],
      [CHR 0xC2, CHR 0xA0],
      [CHR 0xE1, CHR 0x9A, CHR 0x80],
      [CHR 0xE2, CHR 0x80, CHR 0x80], [CHR 0xE2, CHR 0x80, CHR 0x81],
      [CHR 0xE2, CHR 0x80, CHR 0x82], [CHR 0xE2, CHR 0x80, CHR 0x83],
      [CHR 0xE2, CHR 0x80, CHR 0x84], [CHR 0xE2, CHR 0x80, CHR 0x85],
      [CHR 0xE2, CHR 0x80, CHR 0x86], [CHR 0xE2, CHR 0x80, CHR 0x87],
      [CHR 0xE2, CHR 0x80, CHR 0x88], [CHR 0xE2, CHR 0x80, CHR 0x89],
      [CHR 0xE2, CHR 0x80, CHR 0x8A],
      [CHR 0xE2, CHR 0x80, CHR 0xA8], [CHR 0xE2, CHR 0x80, CHR 0xA9],
      [CHR 0xE2, CHR 0x80, CHR 0xAF],
      [CHR 0xE2, CHR 0x81, CHR 0x9F],
      [CHR 0xE3, CHR 0x80, CHR 0x80],
      [CHR 0xEF, CHR 0xBB, CHR 0xBF]]"

text \<open>Removing every leading member of a list of byte sequences.\<close>

function strip :: "string list \<Rightarrow> string \<Rightarrow> string" where
  "strip ws s =
     (case find (\<lambda>w. w \<noteq> [] \<and> prefix w s) ws of
        None \<Rightarrow> s
      | Some w \<Rightarrow> strip ws (drop (length w) s))"
  by pat_completeness auto
termination
proof (relation "measure (\<lambda>(ws, s). length s)")
  show "wf (measure (\<lambda>(ws, s). length s))" by simp
next
  fix ws :: "string list" and s w :: string
  assume "find (\<lambda>w. w \<noteq> [] \<and> prefix w s) ws = Some w"
  then have "w \<noteq> [] \<and> prefix w s"
    by (auto simp: find_Some_iff)
  then have "0 < length w" and "length w \<le> length s"
    by (auto dest: prefix_length_le)
  then have "length s - length w < length s"
    by arith
  then show "((ws, drop (length w) s), (ws, s)) \<in> measure (\<lambda>(ws, s). length s)"
    by simp
qed

declare strip.simps [simp del]

definition trimStart :: "string \<Rightarrow> string" where
  "trimStart s = strip white_space s"

definition trimEnd :: "string \<Rightarrow> string" where
  "trimEnd s = rev (strip (map rev white_space) (rev s))"

definition trim :: "string \<Rightarrow> string" where
  "trim s = trimEnd (trimStart s)"

text \<open>The decimal digits of a number, as string conversion writes an integer.\<close>

fun digits_of :: "nat \<Rightarrow> string" where
  "digits_of n =
     (if n < 10 then [char_of (48 + n)]
      else digits_of (n div 10) @ [char_of (48 + n mod 10)])"

declare digits_of.simps [simp del]

subsection \<open>The display log\<close>

text \<open>
  \<open>terminalBody\<close> is the list of its children.  \<open>addLine\<close> appends a line with a
  prompt, a class, a text and, when images are given and not empty, one image per
  address; \<open>addTypingLine\<close> appends the line with the id \<open>typing-line\<close>, whose text
  span has the id \<open>typing-output\<close>.  \<open>getElementById\<close> finds the first element with
  the id.
\<close>

datatype entry =
    Line (line_prompt: string) (line_class: string) (line_text: string)
         (line_images: "string list")
  | TypingLine (typing_text: string)

definition user_prompt :: string where
  "user_prompt =
     [CHR 0xEC, CHR 0x82, CHR 0xAC, CHR 0xEC, CHR 0x9A, CHR 0xA9, CHR 0xEC, CHR 0x9E,
      CHR 0x90, CHR 0x3E]"

definition adam_prompt :: string where
  "adam_prompt = [CHR 0xEC, CHR 0x95, CHR 0x84, CHR 0xEB, CHR 0x8B, CHR 0xB4, CHR 0x3E]"

definition no_response :: string where
  "no_response =
     [CHR 0xEC, CHR 0x9D, CHR 0x91, CHR 0xEB, CHR 0x8B, CHR 0xB5, CHR 0xEC, CHR 0x9D,
      CHR 0xB4, CHR 0x20, CHR 0xEC, CHR 0x97, CHR 0x86, CHR 0xEC, CHR 0x8A, CHR 0xB5,
      CHR 0xEB, CHR 0x8B, CHR 0x88, CHR 0xEB, CHR 0x8B, CHR 0xA4, CHR 0x2E]"

definition error_prefix :: string where
  "error_prefix =
     [CHR 0xEC, CHR 0x98, CHR 0xA4, CHR 0xEB, CHR 0xA5, CHR 0x98, CHR 0xEA, CHR 0xB0,
      CHR 0x80, CHR 0x20, CHR 0xEB, CHR 0xB0, CHR 0x9C, CHR 0xEC, CHR 0x83, CHR 0x9D,
      CHR 0xED, CHR 0x96, CHR 0x88, CHR 0xEC, CHR 0x8A, CHR 0xB5, CHR 0xEB, CHR 0x8B,
      CHR 0x88, CHR 0xEB, CHR 0x8B, CHR 0xA4, CHR 0x3A, CHR 0x20]"

definition session_label :: string where
  "session_label =
     [CHR 0xEC, CHR 0x84, CHR 0xB8, CHR 0xEC, CHR 0x85, CHR 0x98, CHR 0x20, CHR 0xEC,
      CHR 0x83, CHR 0x9D, CHR 0xEC, CHR 0x84, CHR 0xB1, CHR 0x20, CHR 0xEC, CHR 0x8B,
      CHR 0xA4, CHR 0xED, CHR 0x8C, CHR 0xA8, CHR 0x3A]"

definition autocomplete_label :: string where
  "autocomplete_label =
     [CHR 0xEC, CHR 0x9E, CHR 0x90, CHR 0xEB, CHR 0x8F, CHR 0x99, CHR 0xEC, CHR 0x99,
      CHR 0x84, CHR 0xEC, CHR 0x84, CHR 0xB1, CHR 0x20, CHR 0xEC, CHR 0x98, CHR 0xA4,
      CHR 0xEB, CHR 0xA5, CHR 0x98, CHR 0x3A]"

definition error_label :: string where
  "error_label = [CHR 0xEC, CHR 0x98, CHR 0xA4, CHR 0xEB, CHR 0xA5, CHR 0x98, CHR 0x3A]"

fun is_typing :: "entry \<Rightarrow> bool" where
  "is_typing (TypingLine t) = True"
| "is_typing (Line p c t imgs) = False"

fun set_typing_output :: "string \<Rightarrow> entry list \<Rightarrow> entry list" where
  "set_typing_output text [] = []"
| "set_typing_output text (TypingLine t # es) = TypingLine text # es"
| "set_typing_output text (Line p c t imgs # es) = Line p c t imgs # set_typing_output text es"

fun remove_typing_line :: "entry list \<Rightarrow> entry list" where
  "remove_typing_line [] = []"
| "remove_typing_line (TypingLine t # es) = es"
| "remove_typing_line (Line p c t imgs # es) = Line p c t imgs # remove_typing_line es"

subsection \<open>The state\<close>

text \<open>
  The session handle is \<open>null\<close> at construction and afterwards whatever
  \<open>data.session_id\<close> was: a string, or \<open>undefined\<close> when the answer has no such
  field (\<open>JSON.stringify\<close> then leaves the key out of the request body).
\<close>

datatype handle = Null | Undefined | SessionId string

record item =
  item_name :: string
  item_info :: string
  item_selected :: bool

record artwork =
  name :: string
  size :: "string option"
  year :: "string option"

datatype callback = FetchSuggestions string | BlurCheck

record timer =
  timer_id :: nat
  timer_due :: nat
  timer_callback :: callback

record chat_request =
  message :: string
  session_id :: handle

record terminal =
  sessionId :: handle
  isProcessing :: bool
  autocompleteTimeout :: "nat option"
  selectedIndex :: int
  userInput_value :: string
  userInput_disabled :: bool
  userInput_focused :: bool
  autocompleteList_show :: bool
  autocompleteList_items :: "item list"
  terminalBody :: "entry list"
  clock :: nat
  next_timer :: nat
  timers :: "timer list"
  fetching :: "string list"
  session_pending :: bool
  sent :: "chat_request list"
  console :: "(string \<times> string) list"

text \<open>
  Beyond the fields of the class and of the three page elements, the record holds the
  browser's part: the time in milliseconds, the pending timeouts, the queries of the
  suggestion fetches in flight, whether the create-session call is in flight, the
  chat requests dispatched so far and what \<open>console.error\<close> has logged (label and
  message).  A chat request is in flight exactly while \<open>isProcessing\<close> holds.

  The constructor sets the fields and calls \<open>init\<close>, which dispatches the
  create-session request; the page starts with the given log, no suggestion and an
  empty input.
\<close>

definition new_Terminal :: "entry list \<Rightarrow> terminal" where
  "new_Terminal body =
     \<lparr> sessionId = Null, isProcessing = False, autocompleteTimeout = None,
       selectedIndex = - 1, userInput_value = [], userInput_disabled = False,
       userInput_focused = False, autocompleteList_show = False,
       autocompleteList_items = [], terminalBody = body, clock = 0, next_timer = 1,
       timers = [], fetching = [], session_pending = True, sent = [], console = [] \<rparr>"

definition console_error :: "string \<Rightarrow> string \<Rightarrow> terminal \<Rightarrow> terminal" where
  "console_error label msg s = s\<lparr>console := console s @ [(label, msg)]\<rparr>"

definition focus :: "terminal \<Rightarrow> terminal" where
  "focus s = s\<lparr>userInput_focused := True\<rparr>"

definition setTimeout :: "callback \<Rightarrow> nat \<Rightarrow> terminal \<Rightarrow> nat \<times> terminal" where
  "setTimeout cb delay s =
     (next_timer s,
      s\<lparr>timers := timers s @
            [\<lparr>timer_id = next_timer s, timer_due = clock s + delay, timer_callback = cb\<rparr>],
        next_timer := Suc (next_timer s)\<rparr>)"

definition clearTimeout :: "nat option \<Rightarrow> terminal \<Rightarrow> terminal" where
  "clearTimeout h s = s\<lparr>timers := filter (\<lambda>t. Some (timer_id t) \<noteq> h) (timers s)\<rparr>"

subsection \<open>The autocomplete controller\<close>

definition or_empty :: "string option \<Rightarrow> string" where
  "or_empty v = (case v of None \<Rightarrow> [] | Some x \<Rightarrow> x)"

definition item_of :: "artwork \<Rightarrow> item" where
  "item_of a =
     \<lparr> item_name = name a,
       item_info = trim (or_empty (size a) @ '' '' @ or_empty (year a)),
       item_selected = False \<rparr>"

definition showAutocomplete :: "artwork list \<Rightarrow> terminal \<Rightarrow> terminal" where
  "showAutocomplete artworks s =
     s\<lparr>autocompleteList_items := map item_of artworks,
       selectedIndex := - 1,
       autocompleteList_show := True\<rparr>"

definition hideAutocomplete :: "terminal \<Rightarrow> terminal" where
  "hideAutocomplete s = s\<lparr>autocompleteList_show := False, selectedIndex := - 1\<rparr>"

text \<open>\<open>items[i]\<close> on the node list: \<open>undefined\<close> outside the indices.\<close>

definition item_at :: "item list \<Rightarrow> int \<Rightarrow> item option" where
  "item_at items i =
     (if 0 \<le> i \<and> i < int (length items) then Some (items ! nat i) else None)"

definition set_selected :: "bool \<Rightarrow> int \<Rightarrow> item list \<Rightarrow> item list" where
  "set_selected b i items = items[nat i := (items ! nat i)\<lparr>item_selected := b\<rparr>]"

definition navigateAutocomplete :: "int \<Rightarrow> terminal \<Rightarrow> terminal" where
  "navigateAutocomplete direction s =
     (let items = autocompleteList_items s;
          n = int (length items)
      in if n = 0 then s
         else
           let items1 = (if selectedIndex s \<ge> 0 \<and> selectedIndex s < n
                         then set_selected False (selectedIndex s) items else items);
               i1 = selectedIndex s + direction;
               i2 = (if i1 < 0 then n - 1 else i1);
               i3 = (if i2 \<ge> n then 0 else i2)
           in s\<lparr>autocompleteList_items := set_selected True i3 items1,
                selectedIndex := i3\<rparr>)"

definition handleAutocomplete :: "terminal \<Rightarrow> terminal" where
  "handleAutocomplete s =
     (let query = trim (userInput_value s)
      in if length query < 1 then hideAutocomplete s
         else
           let s1 = clearTimeout (autocompleteTimeout s) s;
               (h, s2) = setTimeout (FetchSuggestions query) 300 s1
           in s2\<lparr>autocompleteTimeout := Some h\<rparr>)"

text \<open>
  The answer to a suggestion fetch: the call or \<open>response.json()\<close> fails with a
  message, or the data arrive, with their \<open>artworks\<close> when the field is there.
\<close>

datatype suggest_outcome = SuggestFailed string | SuggestData "artwork list option"

definition suggest_settled :: "suggest_outcome \<Rightarrow> terminal \<Rightarrow> terminal" where
  "suggest_settled outcome s =
     (case outcome of
        SuggestData (Some artworks) \<Rightarrow>
          if length artworks > 0 then showAutocomplete artworks s else hideAutocomplete s
      | SuggestData None \<Rightarrow> hideAutocomplete s
      | SuggestFailed msg \<Rightarrow> hideAutocomplete (console_error autocomplete_label msg s))"

subsection \<open>The chat stream\<close>

text \<open>
  A record of the chat stream, as the loop of \<open>handleInput\<close> reads it: the fields
  \<open>token\<close> (a string), \<open>images\<close> (a list of addresses) and \<open>done\<close> (a boolean) at the
  types the chat contract gives them, each present or not.  \<open>JSON.parse\<close> is the
  platform's; the loop takes it as the parameter \<open>parse\<close>, which gives the record of
  a payload, or \<open>None\<close> where the \<open>try\<close> block throws (the text is no JSON, or it is
  \<open>null\<close>, whose fields cannot be read).
\<close>

record payload =
  json_token :: "string option"
  json_images :: "string list option"
  json_done :: "bool option"

text \<open>The two variables of \<open>handleInput\<close> that the loop assigns.\<close>

record locals =
  fullResponse :: string
  imageUrls :: "string list"

definition addLine :: "string \<Rightarrow> string \<Rightarrow> string list option \<Rightarrow> terminal \<Rightarrow> terminal" where
  "addLine text className images s =
     s\<lparr>terminalBody := terminalBody s @
         [Line (if className = ''output user'' then user_prompt else adam_prompt)
               className text
               (case images of
                  None \<Rightarrow> []
                | Some urls \<Rightarrow> if length urls > 0 then urls else [])]\<rparr>"

definition addTypingLine :: "terminal \<Rightarrow> terminal" where
  "addTypingLine s = s\<lparr>terminalBody := terminalBody s @ [TypingLine []]\<rparr>"

definition updateTypingLine :: "string \<Rightarrow> terminal \<Rightarrow> terminal" where
  "updateTypingLine text s = s\<lparr>terminalBody := set_typing_output text (terminalBody s)\<rparr>"

definition removeTypingLine :: "terminal \<Rightarrow> terminal" where
  "removeTypingLine s = s\<lparr>terminalBody := remove_typing_line (terminalBody s)\<rparr>"

text \<open>
  The body of the inner \<open>try\<close> for one parsed record.  The boolean says whether the
  \<open>break\<close> was reached; it leaves the \<open>for\<close> loop over the lines of the chunk.
\<close>

definition process_record :: "payload \<Rightarrow> locals \<Rightarrow> terminal \<Rightarrow> locals \<times> terminal \<times> bool" where
  "process_record json l s =
     (let (l1, s1) =
            (case json_token json of
               Some t \<Rightarrow>
                 if t \<noteq> [] then
                   (let l' = l\<lparr>fullResponse := fullResponse l @ t\<rparr>
                    in (l', updateTypingLine (fullResponse l') s))
                 else (l, s)
             | None \<Rightarrow> (l, s));
          l2 = (case json_images json of
                  Some urls \<Rightarrow> l1\<lparr>imageUrls := urls\<rparr>
                | None \<Rightarrow> l1)
      in (l2, s1, json_done json = Some True))"

text \<open>\<open>for (const line of lines)\<close>.\<close>

fun for_lines ::
  "(string \<Rightarrow> payload option) \<Rightarrow> string list \<Rightarrow> locals \<Rightarrow> terminal \<Rightarrow> locals \<times> terminal"
where
  "for_lines parse [] l s = (l, s)"
| "for_lines parse (line # rest) l s =
     (if startsWith line ''data: '' then
        (let data = slice_from 6 line
         in if trim data \<noteq> [] then
              (case parse data of
                 None \<Rightarrow> for_lines parse rest l s
               | Some json \<Rightarrow>
                   (case process_record json l s of
                      (l', s', break) \<Rightarrow>
                        if break then (l', s') else for_lines parse rest l' s'))
            else for_lines parse rest l s)
      else for_lines parse rest l s)"

text \<open>
  \<open>while (true)\<close>: one turn for each chunk that \<open>reader.read()\<close> delivers, until it
  reports the end.  Nothing but the end of the chunks leaves this loop.
\<close>

fun read_loop ::
  "(string \<Rightarrow> payload option) \<Rightarrow> string list \<Rightarrow> locals \<Rightarrow> terminal \<Rightarrow> locals \<times> terminal"
where
  "read_loop parse [] l s = (l, s)"
| "read_loop parse (chunk # later) l s =
     (case for_lines parse (split_nl chunk) l s of
        (l', s') \<Rightarrow> read_loop parse later l' s')"

subsection \<open>Submission\<close>

text \<open>
  What the chat request comes to.  \<open>fetch\<close> rejects with a message, or answers with
  a status and a body.  The body is absent (reading \<open>getReader\<close> of \<open>null\<close> throws,
  with the engine's message), or it is a stream: the texts of the chunks that
  \<open>decoder.decode\<close> returns, in order, and then either the end or a rejected read.
\<close>

datatype stream_end = Closed | Errored string

datatype body = NoBody string | Stream "string list" stream_end

datatype chat_outcome = FetchRejected string | Response nat body

definition response_ok :: "nat \<Rightarrow> bool" where
  "response_ok status = (200 \<le> status \<and> status \<le> 299)"

text \<open>\<open>handleInput\<close> up to \<open>await fetch\<close>.\<close>

definition handleInput :: "terminal \<Rightarrow> terminal" where
  "handleInput s =
     (let message = trim (userInput_value s)
      in if message = [] \<or> isProcessing s then s
         else
           let s1 = addLine message ''output user'' None s;
               s2 = s1\<lparr>userInput_value := [], isProcessing := True,
                       userInput_disabled := True\<rparr>;
               s3 = addTypingLine s2
           in s3\<lparr>sent := sent s3 @ [\<lparr>message = message, session_id = sessionId s3\<rparr>]\<rparr>)"

text \<open>The \<open>catch\<close> and the \<open>finally\<close> block of \<open>handleInput\<close>.\<close>

definition handleInput_catch :: "string \<Rightarrow> terminal \<Rightarrow> terminal" where
  "handleInput_catch msg s =
     addLine (error_prefix @ msg) ''output error'' None
       (removeTypingLine (console_error error_label msg s))"

definition handleInput_finally :: "terminal \<Rightarrow> terminal" where
  "handleInput_finally s =
     focus (s\<lparr>isProcessing := False, userInput_disabled := False\<rparr>)"

text \<open>
  \<open>handleInput\<close> from the settled \<open>fetch\<close> to its end.  The reads of the stream
  are taken together here.  Other events may run between two reads; while the
  submission is in flight they leave the log alone, and the loop writes nothing but
  the log and its two variables (shown below), so the order between them and the
  reads does not matter.
\<close>

definition handleInput_resume ::
  "(string \<Rightarrow> payload option) \<Rightarrow> chat_outcome \<Rightarrow> terminal \<Rightarrow> terminal"
where
  "handleInput_resume parse outcome s =
     handleInput_finally
       (case outcome of
          FetchRejected msg \<Rightarrow> handleInput_catch msg s
        | Response status body \<Rightarrow>
            if \<not> response_ok status then
              handleInput_catch (''HTTP error! status: '' @ digits_of status) s
            else
              (case body of
                 NoBody msg \<Rightarrow> handleInput_catch msg s
               | Stream chunks ending \<Rightarrow>
                   (case read_loop parse chunks \<lparr>fullResponse = [], imageUrls = []\<rparr> s of
                      (l, s1) \<Rightarrow>
                        (case ending of
                           Errored msg \<Rightarrow> handleInput_catch msg s1
                         | Closed \<Rightarrow>
                             addLine
                               (if fullResponse l \<noteq> [] then fullResponse l else no_response)
                               ''output''
                               (if length (imageUrls l) > 0 then Some (imageUrls l) else None)
                               (removeTypingLine s1)))))"

subsection \<open>Session creation\<close>

text \<open>
  What the create-session request comes to: \<open>fetch\<close> rejects, or it answers with a
  status and a body that is no JSON (\<open>response.json()\<close> rejects), is \<open>null\<close> (reading
  \<open>session_id\<close> throws) or is some data, with their \<open>session_id\<close> when they have one.
\<close>

datatype session_body = NotJson string | JsonNull string | JsonData "string option"

datatype session_outcome = SessionRejected string | SessionResponse nat session_body

definition createSession_resume :: "session_outcome \<Rightarrow> terminal \<Rightarrow> terminal" where
  "createSession_resume outcome s =
     (case outcome of
        SessionRejected msg \<Rightarrow> console_error session_label msg s
      | SessionResponse status (NotJson msg) \<Rightarrow> console_error session_label msg s
      | SessionResponse status (JsonNull msg) \<Rightarrow> console_error session_label msg s
      | SessionResponse status (JsonData None) \<Rightarrow> s\<lparr>sessionId := Undefined\<rparr>
      | SessionResponse status (JsonData (Some sid)) \<Rightarrow> s\<lparr>sessionId := SessionId sid\<rparr>)"

subsection \<open>Events\<close>

datatype key = Enter | ArrowDown | ArrowUp | Escape | OtherKey

text \<open>The \<open>keypress\<close> listener of \<open>init\<close>.\<close>

definition keypress :: "key \<Rightarrow> terminal \<Rightarrow> terminal" where
  "keypress k s =
     (if k = Enter \<and> \<not> isProcessing s then
        (if autocompleteList_show s then
           (case item_at (autocompleteList_items s) (selectedIndex s) of
              Some it \<Rightarrow> handleInput (hideAutocomplete (s\<lparr>userInput_value := item_name it\<rparr>))
            | None \<Rightarrow> s)
         else handleInput s)
      else if k = ArrowDown then navigateAutocomplete 1 s
      else if k = ArrowUp then navigateAutocomplete (- 1) s
      else if k = Escape then hideAutocomplete s
      else s)"

text \<open>The \<open>click\<close> listener of the item at an index of the list.\<close>

definition item_click :: "nat \<Rightarrow> terminal \<Rightarrow> terminal" where
  "item_click i s =
     (if i < length (autocompleteList_items s) then
        focus (hideAutocomplete (s\<lparr>userInput_value := item_name (autocompleteList_items s ! i)\<rparr>))
      else s)"

text \<open>The callbacks of the two timeouts.\<close>

definition run_callback :: "callback \<Rightarrow> terminal \<Rightarrow> terminal" where
  "run_callback cb s =
     (case cb of
        FetchSuggestions query \<Rightarrow> s\<lparr>fetching := fetching s @ [query]\<rparr>
      | BlurCheck \<Rightarrow> if \<not> isProcessing s then focus (hideAutocomplete s) else s)"

text \<open>A timeout fires when it is pending and due; then it is pending no more.\<close>

definition timer_fires :: "nat \<Rightarrow> terminal \<Rightarrow> terminal" where
  "timer_fires h s =
     (case find (\<lambda>t. timer_id t = h) (timers s) of
        None \<Rightarrow> s
      | Some t \<Rightarrow>
          if timer_due t \<le> clock s then
            run_callback (timer_callback t)
              (s\<lparr>timers := filter (\<lambda>t. timer_id t \<noteq> h) (timers s)\<rparr>)
          else s)"

text \<open>
  What can happen to the page: a key, a change of the input, the input losing the
  focus, a click on a suggestion, time passing, a timeout firing, and the settling of
  a suggestion fetch (by its place among those in flight), of the create-session
  request and of the chat request.  An event that cannot happen in a state (a fetch
  that is not in flight settling, a timeout firing that is not pending or not due)
  leaves the state as it is.
\<close>

datatype event =
    KeyPress key
  | InputChanged string
  | Blur
  | ItemClick nat
  | Elapse nat
  | TimerFires nat
  | SuggestSettled nat suggest_outcome
  | SessionSettled session_outcome
  | ChatSettled chat_outcome

definition drop_nth :: "nat \<Rightarrow> 'a list \<Rightarrow> 'a list" where
  "drop_nth i xs = take i xs @ drop (Suc i) xs"

definition step :: "(string \<Rightarrow> payload option) \<Rightarrow> terminal \<Rightarrow> event \<Rightarrow> terminal" where
  "step parse s e =
     (case e of
        KeyPress k \<Rightarrow> keypress k s
      | InputChanged v \<Rightarrow> handleAutocomplete (s\<lparr>userInput_value := v\<rparr>)
      | Blur \<Rightarrow> snd (setTimeout BlurCheck 200 (s\<lparr>userInput_focused := False\<rparr>))
      | ItemClick i \<Rightarrow> item_click i s
      | Elapse d \<Rightarrow> s\<lparr>clock := clock s + d\<rparr>
      | TimerFires h \<Rightarrow> timer_fires h s
      | SuggestSettled i outcome \<Rightarrow>
          if i < length (fetching s)
          then suggest_settled outcome (s\<lparr>fetching := drop_nth i (fetching s)\<rparr>)
          else s
      | SessionSettled outcome \<Rightarrow>
          if session_pending s
          then createSession_resume outcome (s\<lparr>session_pending := False\<rparr>)
          else s
      | ChatSettled outcome \<Rightarrow>
          if isProcessing s then handleInput_resume parse outcome s else s)"

definition run :: "(string \<Rightarrow> payload option) \<Rightarrow> terminal \<Rightarrow> event list \<Rightarrow> terminal" where
  "run parse s es = foldl (step parse) s es"

subsection \<open>The stream events\<close>

text \<open>
  The loop has no event objects; the events of the stream are the branches its body
  takes.  A record with a truthy \<open>token\<close> is a \<open>Token\<close> with that text, a record with
  \<open>images\<close> an \<open>Images\<close> with that list, a record with a truthy \<open>done\<close> a \<open>Done\<close>,
  after which the remaining lines of the chunk are left unread.
\<close>

datatype stream_event = Token string | Images "string list" | Done

definition record_events :: "payload \<Rightarrow> stream_event list" where
  "record_events json =
     (case json_token json of Some t \<Rightarrow> if t \<noteq> [] then [Token t] else [] | None \<Rightarrow> []) @
     (case json_images json of Some urls \<Rightarrow> [Images urls] | None \<Rightarrow> []) @
     (if json_done json = Some True then [Done] else [])"

fun lines_events :: "(string \<Rightarrow> payload option) \<Rightarrow> string list \<Rightarrow> stream_event list" where
  "lines_events parse [] = []"
| "lines_events parse (line # rest) =
     (if startsWith line ''data: '' \<and> trim (slice_from 6 line) \<noteq> [] then
        (case parse (slice_from 6 line) of
           None \<Rightarrow> lines_events parse rest
         | Some json \<Rightarrow>
             record_events json @
             (if json_done json = Some True then [] else lines_events parse rest))
      else lines_events parse rest)"

definition chunk_events :: "(string \<Rightarrow> payload option) \<Rightarrow> string \<Rightarrow> stream_event list" where
  "chunk_events parse chunk = lines_events parse (split_nl chunk)"

definition stream_events :: "(string \<Rightarrow> payload option) \<Rightarrow> string list \<Rightarrow> stream_event list" where
  "stream_events parse chunks = concat (map (chunk_events parse) chunks)"

text \<open>What the loop does with one event, and with a list of them.\<close>

fun apply_event :: "locals \<times> terminal \<Rightarrow> stream_event \<Rightarrow> locals \<times> terminal" where
  "apply_event (l, s) (Token t) =
     (l\<lparr>fullResponse := fullResponse l @ t\<rparr>, updateTypingLine (fullResponse l @ t) s)"
| "apply_event (l, s) (Images urls) = (l\<lparr>imageUrls := urls\<rparr>, s)"
| "apply_event (l, s) Done = (l, s)"

subsection \<open>The platform's JSON.parse\<close>

text \<open>
  The theorems below hold for every \<open>parse\<close>.  To run the model on the texts of a
  stream, this section gives the platform's function: the JSON grammar (objects,
  arrays, strings with their escapes, numbers, \<open>true\<close>, \<open>false\<close>, \<open>null\<close>, white
  space), read by a scanner that takes one character at a time and a parser that
  takes one token at a time.  A number is kept as it is written.  An escape
  \<open>\uXXXX\<close> gives the UTF-8 bytes of the code unit (a surrogate pair written with
  two escapes gives three bytes for each half).
\<close>

datatype json =
    JNull
  | JBool bool
  | JNumber string
  | JString string
  | JArray "json list"
  | JObject "(string \<times> json) list"

datatype jtoken = LBrace | RBrace | LBracket | RBracket | Colon | Comma | Scalar json

datatype scan_mode =
    Between
  | InWord string
  | InString string
  | InEscape string
  | InUnicode string nat nat

definition is_digit :: "char \<Rightarrow> bool" where
  "is_digit c = (48 \<le> (of_char c :: nat) \<and> (of_char c :: nat) \<le> 57)"

definition hex_value :: "char \<Rightarrow> nat option" where
  "hex_value c =
     (let n = (of_char c :: nat)
      in if 48 \<le> n \<and> n \<le> 57 then Some (n - 48)
         else if 65 \<le> n \<and> n \<le> 70 then Some (n - 55)
         else if 97 \<le> n \<and> n \<le> 102 then Some (n - 87)
         else None)"

definition utf8 :: "nat \<Rightarrow> string" where
  "utf8 u =
     (if u < 128 then [char_of u]
      else if u < 2048 then [char_of (192 + u div 64), char_of (128 + u mod 64)]
      else [char_of (224 + u div 4096), char_of (128 + (u div 64) mod 64),
            char_of (128 + u mod 64)])"

definition is_json_space :: "char \<Rightarrow> bool" where
  "is_json_space c = (c \<in> {CHR 0x20, CHR 0x09, CHR 0x0A, CHR 0x0D})"

definition is_word_char :: "char \<Rightarrow> bool" where
  "is_word_char c =
     (is_digit c \<or> (97 \<le> (of_char c :: nat) \<and> (of_char c :: nat) \<le> 122)
      \<or> c \<in> {CHR ''-'', CHR ''+'', CHR ''.'', CHR ''E''})"

text \<open>The number grammar: sign, integer part without a leading zero, fraction, exponent.\<close>

definition valid_number :: "string \<Rightarrow> bool" where
  "valid_number w =
     (let w1 = (case w of c # r \<Rightarrow> if c = CHR ''-'' then r else w | [] \<Rightarrow> w);
          ds = takeWhile is_digit w1;
          w2 = dropWhile is_digit w1;
          int_ok = (ds \<noteq> [] \<and> (ds = ''0'' \<or> hd ds \<noteq> CHR ''0''));
          (frac_ok, w3) =
            (case w2 of
               c # r \<Rightarrow>
                 if c = CHR ''.'' then (takeWhile is_digit r \<noteq> [], dropWhile is_digit r)
                 else (True, w2)
             | [] \<Rightarrow> (True, w2));
          exp_ok =
            (case w3 of
               [] \<Rightarrow> True
             | c # r \<Rightarrow>
                 if c = CHR ''e'' \<or> c = CHR ''E'' then
                   (let r1 = (case r of d # r' \<Rightarrow>
                                 if d = CHR ''+'' \<or> d = CHR ''-'' then r' else r
                               | [] \<Rightarrow> r)
                    in r1 \<noteq> [] \<and> list_all is_digit r1)
                 else False)
      in int_ok \<and> frac_ok \<and> exp_ok)"

definition scalar_of_word :: "string \<Rightarrow> json option" where
  "scalar_of_word w =
     (if w = ''true'' then Some (JBool True)
      else if w = ''false'' then Some (JBool False)
      else if w = ''null'' then Some JNull
      else if valid_number w then Some (JNumber w)
      else None)"

definition scan_between :: "jtoken list \<Rightarrow> char \<Rightarrow> (scan_mode \<times> jtoken list) option" where
  "scan_between out c =
     (if is_json_space c then Some (Between, out)
      else if c = CHR ''{'' then Some (Between, LBrace # out)
      else if c = CHR ''}'' then Some (Between, RBrace # out)
      else if c = CHR ''['' then Some (Between, LBracket # out)
      else if c = CHR '']'' then Some (Between, RBracket # out)
      else if c = CHR '':'' then Some (Between, Colon # out)
      else if c = CHR '','' then Some (Between, Comma # out)
      else if c = CHR 0x22 then Some (InString [], out)
      else if is_word_char c then Some (InWord [c], out)
      else None)"

text \<open>One character; the tokens and the text of a string are collected in reverse.\<close>

fun scan_char :: "scan_mode \<times> jtoken list \<Rightarrow> char \<Rightarrow> (scan_mode \<times> jtoken list) option" where
  "scan_char (Between, out) c = scan_between out c"
| "scan_char (InWord w, out) c =
     (if is_word_char c then Some (InWord (c # w), out)
      else (case scalar_of_word (rev w) of
              None \<Rightarrow> None
            | Some v \<Rightarrow> scan_between (Scalar v # out) c))"
| "scan_char (InString acc, out) c =
     (if c = CHR 0x22 then Some (Between, Scalar (JString (rev acc)) # out)
      else if c = CHR 0x5C then Some (InEscape acc, out)
      else if (of_char c :: nat) < 32 then None
      else Some (InString (c # acc), out))"
| "scan_char (InEscape acc, out) c =
     (if c = CHR 0x22 \<or> c = CHR 0x5C \<or> c = CHR ''/'' then Some (InString (c # acc), out)
      else if c = CHR ''b'' then Some (InString (CHR 0x08 # acc), out)
      else if c = CHR ''f'' then Some (InString (CHR 0x0C # acc), out)
      else if c = CHR ''n'' then Some (InString (CHR 0x0A # acc), out)
      else if c = CHR ''r'' then Some (InString (CHR 0x0D # acc), out)
      else if c = CHR ''t'' then Some (InString (CHR 0x09 # acc), out)
      else if c = CHR ''u'' then Some (InUnicode acc 0 0, out)
      else None)"
| "scan_char (InUnicode acc k v, out) c =
     (case hex_value c of
        None \<Rightarrow> None
      | Some d \<Rightarrow>
          if k = 3 then Some (InString (rev (utf8 (16 * v + d)) @ acc), out)
          else Some (InUnicode acc (Suc k) (16 * v + d), out))"

fun scan_all :: "scan_mode \<times> jtoken list \<Rightarrow> string \<Rightarrow> (scan_mode \<times> jtoken list) option" where
  "scan_all st [] = Some st"
| "scan_all st (c # cs) =
     (case scan_char st c of None \<Rightarrow> None | Some st' \<Rightarrow> scan_all st' cs)"

definition scan :: "string \<Rightarrow> jtoken list option" where
  "scan text =
     (case scan_all (Between, []) text of
        Some (Between, out) \<Rightarrow> Some (rev out)
      | Some (InWord w, out) \<Rightarrow>
          (case scalar_of_word (rev w) of
             None \<Rightarrow> None
           | Some v \<Rightarrow> Some (rev (Scalar v # out)))
      | _ \<Rightarrow> None)"

text \<open>
  The parser keeps the open arrays and objects on a stack, innermost first, each with
  its members so far in reverse (an object also with the key that waits for its
  value), and what may come next.
\<close>

datatype frame = ArrayFrame "json list" | ObjectFrame "(string \<times> json) list" "string option"

datatype expect = AValue | AValueOrEnd | AKey | AKeyOrEnd | AColon | ACommaOrEnd

datatype parser = Open "frame list" expect | Complete json

fun put_value :: "json \<Rightarrow> frame list \<Rightarrow> parser option" where
  "put_value v [] = Some (Complete v)"
| "put_value v (ArrayFrame xs # st) = Some (Open (ArrayFrame (v # xs) # st) ACommaOrEnd)"
| "put_value v (ObjectFrame kvs (Some k) # st) =
     Some (Open (ObjectFrame ((k, v) # kvs) None # st) ACommaOrEnd)"
| "put_value v (ObjectFrame kvs None # st) = None"

fun parse_token :: "parser \<Rightarrow> jtoken \<Rightarrow> parser option" where
  "parse_token (Complete v) t = None"
| "parse_token (Open st AValue) (Scalar v) = put_value v st"
| "parse_token (Open st AValueOrEnd) (Scalar v) = put_value v st"
| "parse_token (Open st AValue) LBracket = Some (Open (ArrayFrame [] # st) AValueOrEnd)"
| "parse_token (Open st AValueOrEnd) LBracket = Some (Open (ArrayFrame [] # st) AValueOrEnd)"
| "parse_token (Open st AValue) LBrace = Some (Open (ObjectFrame [] None # st) AKeyOrEnd)"
| "parse_token (Open st AValueOrEnd) LBrace = Some (Open (ObjectFrame [] None # st) AKeyOrEnd)"
| "parse_token (Open (ArrayFrame xs # st) AValueOrEnd) RBracket = put_value (JArray (rev xs)) st"
| "parse_token (Open (ObjectFrame kvs None # st) AKey) (Scalar (JString k)) =
     Some (Open (ObjectFrame kvs (Some k) # st) AColon)"
| "parse_token (Open (ObjectFrame kvs None # st) AKeyOrEnd) (Scalar (JString k)) =
     Some (Open (ObjectFrame kvs (Some k) # st) AColon)"
| "parse_token (Open (ObjectFrame kvs None # st) AKeyOrEnd) RBrace = put_value (JObject (rev kvs)) st"
| "parse_token (Open st AColon) Colon = Some (Open st AValue)"
| "parse_token (Open (ArrayFrame xs # st) ACommaOrEnd) Comma = Some (Open (ArrayFrame xs # st) AValue)"
| "parse_token (Open (ObjectFrame kvs None # st) ACommaOrEnd) Comma =
     Some (Open (ObjectFrame kvs None # st) AKey)"
| "parse_token (Open (ArrayFrame xs # st) ACommaOrEnd) RBracket = put_value (JArray (rev xs)) st"
| "parse_token (Open (ObjectFrame kvs None # st) ACommaOrEnd) RBrace = put_value (JObject (rev kvs)) st"
| "parse_token (Open st ex) t = None"

fun parse_all :: "parser \<Rightarrow> jtoken list \<Rightarrow> parser option" where
  "parse_all p [] = Some p"
| "parse_all p (t # ts) =
     (case parse_token p t of None \<Rightarrow> None | Some p' \<Rightarrow> parse_all p' ts)"

text \<open>\<open>JSON.parse(text)\<close>: the value, or \<open>None\<close> for the \<open>SyntaxError\<close>.\<close>

definition JSON_parse :: "string \<Rightarrow> json option" where
  "JSON_parse text =
     (case scan text of
        None \<Rightarrow> None
      | Some ts \<Rightarrow>
          (case parse_all (Open [] AValue) ts of
             Some (Complete v) \<Rightarrow> Some v
           | _ \<Rightarrow> None))"

text \<open>
  Reading a property of a parsed value: an object has the properties of its members
  (the last one of those with the same key), any other value but \<open>null\<close> has neither
  \<open>token\<close> nor \<open>images\<close> nor \<open>done\<close>.
\<close>

definition property :: "json \<Rightarrow> string \<Rightarrow> json option" where
  "property v key = (case v of JObject kvs \<Rightarrow> map_of (rev kvs) key | _ \<Rightarrow> None)"

fun strings_of :: "json list \<Rightarrow> string list option" where
  "strings_of [] = Some []"
| "strings_of (JString x # vs) =
     (case strings_of vs of None \<Rightarrow> None | Some xs \<Rightarrow> Some (x # xs))"
| "strings_of (v # vs) = None"

text \<open>
  The record of the chat stream that a parsed value is.  A field whose value is not
  of the type the chat contract gives it is outside this model; it is read as absent.
\<close>

definition record_of :: "json \<Rightarrow> payload option" where
  "record_of v =
     (case v of
        JNull \<Rightarrow> None
      | _ \<Rightarrow>
          Some \<lparr> json_token = (case property v ''token'' of
                                Some (JString t) \<Rightarrow> Some t | _ \<Rightarrow> None),
                 json_images = (case property v ''images'' of
                                 Some (JArray urls) \<Rightarrow> strings_of urls | _ \<Rightarrow> None),
                 json_done = (case property v ''done'' of
                               Some (JBool b) \<Rightarrow> Some b | _ \<Rightarrow> None) \<rparr>)"

definition chat_parse :: "string \<Rightarrow> payload option" where
  "chat_parse data = (case JSON_parse data of None \<Rightarrow> None | Some v \<Rightarrow> record_of v)"

subsection \<open>Predicates of the claims\<close>

text \<open>The invariant of the selection: \<open>selectedIndex\<close> lies in \<open>[-1, items.length - 1]\<close>.\<close>

definition index_ok :: "terminal \<Rightarrow> bool" where
  "index_ok s =
     (- 1 \<le> selectedIndex s \<and>
      selectedIndex s \<le> int (length (autocompleteList_items s)) - 1)"

text \<open>A page with one suggestion open and none selected, as the examples use it.\<close>

definition mona_lisa :: artwork where
  "mona_lisa = \<lparr> name = ''Mona Lisa'', size = None, year = Some ''1503'' \<rparr>"

definition suggesting :: terminal where
  "suggesting = showAutocomplete [mona_lisa] (new_Terminal [])"

text \<open>Whether an event is the settling of the chat request.\<close>

fun chat_settles :: "event \<Rightarrow> bool" where
  "chat_settles (ChatSettled out) = True"
| "chat_settles e = False"

text \<open>
  The description of the failure of a chat request: the message that the \<open>catch\<close>
  block of \<open>handleInput\<close> receives, \<open>None\<close> when the request and its stream end well.
\<close>

definition failure_message :: "chat_outcome \<Rightarrow> string option" where
  "failure_message outcome =
     (case outcome of
        FetchRejected msg \<Rightarrow> Some msg
      | Response status body \<Rightarrow>
          if \<not> response_ok status then Some (''HTTP error! status: '' @ digits_of status)
          else (case body of
                  NoBody msg \<Rightarrow> Some msg
                | Stream chunks (Errored msg) \<Rightarrow> Some msg
                | Stream chunks Closed \<Rightarrow> None))"

text \<open>The texts of the \<open>Token\<close> events and the lists of the \<open>Images\<close> events, in order.\<close>

fun token_texts :: "stream_event list \<Rightarrow> string list" where
  "token_texts [] = []"
| "token_texts (Token t # es) = t # token_texts es"
| "token_texts (e # es) = token_texts es"

fun image_lists :: "stream_event list \<Rightarrow> string list list" where
  "image_lists [] = []"
| "image_lists (Images urls # es) = urls # image_lists es"
| "image_lists (e # es) = image_lists es"

text \<open>A log without an in-progress entry.\<close>

definition no_typing :: "entry list \<Rightarrow> bool" where
  "no_typing es = (\<not> list_ex is_typing es)"

text \<open>The log has one in-progress entry while a submission is in flight, else none.\<close>

definition log_ok :: "terminal \<Rightarrow> bool" where
  "log_ok s =
     (length (filter is_typing (terminalBody s)) = (if isProcessing s then 1 else 0))"

text \<open>A page whose input holds a message, before any submission.\<close>

definition asking :: terminal where
  "asking = (new_Terminal [])\<lparr>userInput_value := ''Hi''\<rparr>"

text \<open>
  A page with one suggestion, selected with the down arrow; \<open>padded\<close> is a suggestion
  whose name starts with a blank.
\<close>

definition padded :: artwork where
  "padded = \<lparr> name = '' Mona Lisa'', size = None, year = None \<rparr>"

definition selecting :: "artwork \<Rightarrow> terminal" where
  "selecting a = navigateAutocomplete 1 (showAutocomplete [a] (new_Terminal []))"

text \<open>
  The pending timeouts that fetch suggestions.  In a state the constructor and the
  events can reach, the identifiers of the pending timeouts are below the next one
  to be given out, and a pending fetch timeout is the one \<open>autocompleteTimeout\<close>
  holds.  A timeout is gone when its identifier has been given out and is not pending.
\<close>

fun fetches :: "timer \<Rightarrow> bool" where
  "fetches t = (case timer_callback t of FetchSuggestions q \<Rightarrow> True | BlurCheck \<Rightarrow> False)"

definition suggestion_timers :: "terminal \<Rightarrow> timer list" where
  "suggestion_timers s = filter fetches (timers s)"

definition timers_ok :: "terminal \<Rightarrow> bool" where
  "timers_ok s =
     ((\<forall>t \<in> set (timers s). timer_id t < next_timer s) \<and>
      (\<forall>t \<in> set (suggestion_timers s). autocompleteTimeout s = Some (timer_id t)))"

definition gone :: "nat \<Rightarrow> terminal \<Rightarrow> bool" where
  "gone h s = (h < next_timer s \<and> (\<forall>t \<in> set (timers s). timer_id t \<noteq> h))"

text \<open>A page where \<open>M\<close> has just been typed: its fetch timeout is pending.\<close>

definition waiting :: terminal where
  "waiting = handleAutocomplete ((new_Terminal [])\<lparr>userInput_value := ''M''\<rparr>)"

section \<open>What the loop leaves alone\<close>

text \<open>
  The loop over the stream writes the two local variables and the text of the typing
  line; the rest of \<open>handleInput\<close> writes the log, the console, the lock and the
  input's \<open>disabled\<close> and focus.
\<close>

lemma process_record_frame:
  "fst (snd (process_record json l s)) =
     s\<lparr>terminalBody := terminalBody (fst (snd (process_record json l s)))\<rparr>"
  by (auto simp: process_record_def updateTypingLine_def Let_def split: option.splits)

lemma for_lines_frame:
  "snd (for_lines parse ls l s) =
     s\<lparr>terminalBody := terminalBody (snd (for_lines parse ls l s))\<rparr>"
proof (induction ls arbitrary: l s)
  case Nil
  show ?case by simp
next
  case (Cons line rest)
  show ?case
  proof (cases "startsWith line ''data: '' \<and> trim (slice_from 6 line) \<noteq> []")
    case False
    then show ?thesis using Cons.IH[of l s] by (auto simp: Let_def)
  next
    case marked: True
    show ?thesis
    proof (cases "parse (slice_from 6 line)")
      case None
      then show ?thesis using marked Cons.IH[of l s] by (simp add: Let_def)
    next
      case (Some json)
      obtain l' s' br where pr: "process_record json l s = (l', s', br)"
        by (cases "process_record json l s") auto
      from process_record_frame[of json l s] pr
      have b: "s' = s\<lparr>terminalBody := terminalBody s'\<rparr>"
        by auto
      show ?thesis
      proof (cases br)
        case True
        then show ?thesis using marked Some pr b
          by (auto simp: Let_def)
      next
        case False
        have "snd (for_lines parse rest l' s') =
                s'\<lparr>terminalBody := terminalBody (snd (for_lines parse rest l' s'))\<rparr>"
          by (rule Cons.IH)
        also have "\<dots> = s\<lparr>terminalBody := terminalBody (snd (for_lines parse rest l' s'))\<rparr>"
          by (subst b) simp
        finally show ?thesis using False marked Some pr
          by (simp add: Let_def)
      qed
    qed
  qed
qed

lemma read_loop_frame:
  "snd (read_loop parse cs l s) =
     s\<lparr>terminalBody := terminalBody (snd (read_loop parse cs l s))\<rparr>"
proof (induction cs arbitrary: l s)
  case Nil
  show ?case by simp
next
  case (Cons c cs)
  obtain l' s' where fl: "for_lines parse (split_nl c) l s = (l', s')"
    by (cases "for_lines parse (split_nl c) l s") auto
  from for_lines_frame[of parse "split_nl c" l s] fl
  have b: "s' = s\<lparr>terminalBody := terminalBody s'\<rparr>" by auto
  have "snd (read_loop parse cs l' s') =
          s'\<lparr>terminalBody := terminalBody (snd (read_loop parse cs l' s'))\<rparr>"
    by (rule Cons.IH)
  also have "\<dots> = s\<lparr>terminalBody := terminalBody (snd (read_loop parse cs l' s'))\<rparr>"
    by (subst b) simp
  finally show ?case using fl by simp
qed

lemma handleInput_resume_frame:
  "handleInput_resume parse out s =
     s\<lparr>terminalBody := terminalBody (handleInput_resume parse out s),
       console := console (handleInput_resume parse out s),
       isProcessing := False, userInput_disabled := False, userInput_focused := True\<rparr>"
proof -
  have catch: "handleInput_finally (handleInput_catch m (s\<lparr>terminalBody := b0\<rparr>)) =
     s\<lparr>terminalBody := terminalBody (handleInput_catch m (s\<lparr>terminalBody := b0\<rparr>)),
       console := console (handleInput_catch m (s\<lparr>terminalBody := b0\<rparr>)),
       isProcessing := False, userInput_disabled := False, userInput_focused := True\<rparr>"
    for m b0
    by (simp add: handleInput_finally_def handleInput_catch_def addLine_def
        removeTypingLine_def console_error_def focus_def)
  show ?thesis
  proof (cases out)
    case (FetchRejected m)
    then show ?thesis using catch[of m "terminalBody s"]
      by (simp add: handleInput_resume_def handleInput_finally_def focus_def)
  next
    case (Response status body)
    show ?thesis
    proof (cases "response_ok status")
      case False
      then show ?thesis using Response catch[of _ "terminalBody s"]
        by (simp add: handleInput_resume_def handleInput_finally_def focus_def)
    next
      case True
      show ?thesis
      proof (cases body)
        case (NoBody m)
        then show ?thesis using True Response catch[of m "terminalBody s"]
          by (simp add: handleInput_resume_def handleInput_finally_def focus_def)
      next
        case (Stream chunks ending)
        obtain l s1 where
          rl: "read_loop parse chunks \<lparr>fullResponse = [], imageUrls = []\<rparr> s = (l, s1)"
          by (cases "read_loop parse chunks \<lparr>fullResponse = [], imageUrls = []\<rparr> s") auto
        from read_loop_frame[of parse chunks "\<lparr>fullResponse = [], imageUrls = []\<rparr>" s] rl
        have b: "s1 = s\<lparr>terminalBody := terminalBody s1\<rparr>" by simp
        define b1 where "b1 = terminalBody s1"
        have rl': "read_loop parse chunks \<lparr>fullResponse = [], imageUrls = []\<rparr> s =
                     (l, s\<lparr>terminalBody := b1\<rparr>)"
          using rl b by (simp add: b1_def)
        show ?thesis
        proof (cases ending)
          case Closed
          then show ?thesis using True Response Stream rl'
            by (simp add: handleInput_resume_def handleInput_finally_def addLine_def
                removeTypingLine_def focus_def)
        next
          case (Errored m)
          then show ?thesis using True Response Stream rl' catch[of m b1]
            by (simp add: handleInput_resume_def handleInput_finally_def focus_def)
        qed
      qed
    qed
  qed
qed

lemma handleInput_resume_autocomplete:
  "selectedIndex (handleInput_resume parse out s) = selectedIndex s"
  "autocompleteList_items (handleInput_resume parse out s) = autocompleteList_items s"
  "autocompleteList_show (handleInput_resume parse out s) = autocompleteList_show s"
  by (subst handleInput_resume_frame, simp)+

lemma handleInput_autocomplete:
  "selectedIndex (handleInput s) = selectedIndex s"
  "autocompleteList_items (handleInput s) = autocompleteList_items s"
  "autocompleteList_show (handleInput s) = autocompleteList_show s"
  by (simp_all add: handleInput_def Let_def addLine_def addTypingLine_def)

section \<open>The autocomplete controller\<close>

lemma index_ok_hide: "index_ok (hideAutocomplete s)"
  by (simp add: index_ok_def hideAutocomplete_def)

lemma index_ok_show: "index_ok (showAutocomplete artworks s)"
  by (simp add: index_ok_def showAutocomplete_def)

lemma index_ok_navigate: "index_ok s \<Longrightarrow> index_ok (navigateAutocomplete direction s)"
  by (auto simp: index_ok_def navigateAutocomplete_def Let_def set_selected_def)

lemma index_ok_cong:
  "selectedIndex s' = selectedIndex s \<Longrightarrow>
   autocompleteList_items s' = autocompleteList_items s \<Longrightarrow> index_ok s' = index_ok s"
  by (simp add: index_ok_def)

lemma index_ok_handleInput: "index_ok (handleInput s) = index_ok s"
  by (rule index_ok_cong) (rule handleInput_autocomplete)+

lemma index_ok_keypress: "index_ok s \<Longrightarrow> index_ok (keypress k s)"
  by (cases k)
    (auto simp: keypress_def index_ok_navigate index_ok_hide index_ok_handleInput
      split: option.splits)

lemma index_ok_step: "index_ok s \<Longrightarrow> index_ok (step parse s e)"
proof (cases e)
  case (KeyPress k)
  assume "index_ok s"
  then show ?thesis using KeyPress by (simp add: step_def index_ok_keypress)
next
  case (ChatSettled out)
  assume "index_ok s"
  then show ?thesis using ChatSettled
    by (simp add: step_def index_ok_cong[OF handleInput_resume_autocomplete(1,2)])
next
  case (InputChanged v)
  assume "index_ok s"
  then show ?thesis using InputChanged
    by (auto simp: step_def handleAutocomplete_def Let_def hideAutocomplete_def
        clearTimeout_def setTimeout_def index_ok_def)
next
  case Blur
  assume "index_ok s"
  then show ?thesis using Blur by (simp add: step_def setTimeout_def index_ok_def)
next
  case (ItemClick i)
  assume "index_ok s"
  then show ?thesis using ItemClick
    by (simp add: step_def item_click_def focus_def hideAutocomplete_def index_ok_def)
next
  case (Elapse d)
  assume "index_ok s"
  then show ?thesis using Elapse by (simp add: step_def index_ok_def)
next
  case (TimerFires h)
  assume "index_ok s"
  then show ?thesis using TimerFires
    by (auto simp: step_def timer_fires_def run_callback_def focus_def hideAutocomplete_def
        index_ok_def split: option.splits callback.splits)
next
  case (SuggestSettled i out)
  assume "index_ok s"
  then show ?thesis using SuggestSettled
    by (auto simp: step_def suggest_settled_def showAutocomplete_def hideAutocomplete_def
        console_error_def index_ok_def split: suggest_outcome.splits option.splits)
next
  case (SessionSettled out)
  assume "index_ok s"
  then show ?thesis using SessionSettled
    by (auto simp: step_def createSession_resume_def console_error_def index_ok_def
        split: session_outcome.splits session_body.splits option.splits)
qed

lemma closing_resets_keypress:
  "autocompleteList_show s \<Longrightarrow> \<not> autocompleteList_show (keypress k s) \<Longrightarrow>
   selectedIndex (keypress k s) = - 1"
  by (auto simp: keypress_def handleInput_autocomplete hideAutocomplete_def
      navigateAutocomplete_def Let_def split: option.splits if_splits)

lemma closing_resets_step:
  "autocompleteList_show s \<Longrightarrow> \<not> autocompleteList_show (step parse s e) \<Longrightarrow>
   selectedIndex (step parse s e) = - 1"
proof (cases e)
  case (KeyPress k)
  assume "autocompleteList_show s" "\<not> autocompleteList_show (step parse s e)"
  then show ?thesis using KeyPress by (simp add: step_def closing_resets_keypress)
next
  case (ChatSettled out)
  assume "autocompleteList_show s" "\<not> autocompleteList_show (step parse s e)"
  then show ?thesis using ChatSettled
    by (simp add: step_def handleInput_resume_autocomplete split: if_splits)
next
  case (InputChanged v)
  assume "autocompleteList_show s" "\<not> autocompleteList_show (step parse s e)"
  then show ?thesis using InputChanged
    by (auto simp: step_def handleAutocomplete_def Let_def hideAutocomplete_def
        clearTimeout_def setTimeout_def split: if_splits)
next
  case Blur
  assume "autocompleteList_show s" "\<not> autocompleteList_show (step parse s e)"
  then show ?thesis using Blur by (simp add: step_def setTimeout_def)
next
  case (ItemClick i)
  assume "autocompleteList_show s" "\<not> autocompleteList_show (step parse s e)"
  then show ?thesis using ItemClick
    by (simp add: step_def item_click_def focus_def hideAutocomplete_def split: if_splits)
next
  case (Elapse d)
  assume "autocompleteList_show s" "\<not> autocompleteList_show (step parse s e)"
  then show ?thesis using Elapse by (simp add: step_def)
next
  case (TimerFires h)
  assume "autocompleteList_show s" "\<not> autocompleteList_show (step parse s e)"
  then show ?thesis using TimerFires
    by (auto simp: step_def timer_fires_def run_callback_def focus_def hideAutocomplete_def
        split: option.splits callback.splits if_splits)
next
  case (SuggestSettled i out)
  assume "autocompleteList_show s" "\<not> autocompleteList_show (step parse s e)"
  then show ?thesis using SuggestSettled
    by (auto simp: step_def suggest_settled_def showAutocomplete_def hideAutocomplete_def
        console_error_def split: suggest_outcome.splits option.splits if_splits)
next
  case (SessionSettled out)
  assume "autocompleteList_show s" "\<not> autocompleteList_show (step parse s e)"
  then show ?thesis using SessionSettled
    by (auto simp: step_def createSession_resume_def console_error_def
        split: session_outcome.splits session_body.splits option.splits if_splits)
qed

text \<open>
  Claim C7.  The constructor establishes the invariant that \<open>selectedIndex\<close> lies in
  \<open>[-1, items.length - 1]\<close>, every event preserves it, and so do showing, hiding and
  navigating in any direction; \<open>hideAutocomplete\<close> closes the list and sets
  \<open>selectedIndex\<close> to \<open>-1\<close> from every state, and every event that takes the list
  from open to closed leaves \<open>selectedIndex\<close> at \<open>-1\<close>.
\<close>

theorem selectedIndex_in_range:
  assumes "index_ok s"
  shows "index_ok (new_Terminal body) \<and>
         index_ok (step parse s e) \<and>
         index_ok (showAutocomplete artworks s) \<and>
         index_ok (hideAutocomplete s) \<and>
         index_ok (navigateAutocomplete direction s) \<and>
         \<not> autocompleteList_show (hideAutocomplete s') \<and>
         selectedIndex (hideAutocomplete s') = - 1 \<and>
         (autocompleteList_show s \<and> \<not> autocompleteList_show (step parse s e)
            \<longrightarrow> selectedIndex (step parse s e) = - 1)"
proof -
  have "index_ok (new_Terminal body)"
    by (simp add: index_ok_def new_Terminal_def)
  moreover have "index_ok (step parse s e)"
    using assms by (rule index_ok_step)
  moreover have "index_ok (navigateAutocomplete direction s)"
    using assms by (rule index_ok_navigate)
  moreover have "\<not> autocompleteList_show (hideAutocomplete s')"
    and "selectedIndex (hideAutocomplete s') = - 1"
    by (simp_all add: hideAutocomplete_def)
  ultimately show ?thesis
    using index_ok_show index_ok_hide closing_resets_step by blast
qed

theorem selectedIndex_in_range_witness:
  "index_ok suggesting \<and>
   autocompleteList_show suggesting \<and>
   \<not> autocompleteList_show (step chat_parse suggesting (KeyPress Escape)) \<and>
   index_ok (step chat_parse suggesting (KeyPress Escape)) \<and>
   index_ok (navigateAutocomplete 1 suggesting) \<and>
   selectedIndex (step chat_parse suggesting (KeyPress Escape)) = - 1"
proof -
  have ok: "index_ok suggesting"
    by (simp add: suggesting_def index_ok_show)
  have shown: "autocompleteList_show suggesting"
    by (simp add: suggesting_def showAutocomplete_def)
  have closed: "\<not> autocompleteList_show (step chat_parse suggesting (KeyPress Escape))"
    by (simp add: step_def keypress_def hideAutocomplete_def)
  from selectedIndex_in_range[OF ok, of "[]" chat_parse "KeyPress Escape" "[]" 1 suggesting]
  show ?thesis using ok shown closed by blast
qed

text \<open>
  Claim C10.  When the suggestion list is open and no item is selected
  (\<open>selectedIndex\<close> is \<open>-1\<close>), the Enter key changes nothing: the whole state (the
  requests dispatched, the display log, the text of the input, the list and its
  selection) is the one before.
\<close>

theorem enter_without_selection:
  "autocompleteList_show s \<Longrightarrow> selectedIndex s = - 1 \<Longrightarrow>
   step parse s (KeyPress Enter) = s"
  by (simp add: step_def keypress_def item_at_def)

theorem enter_without_selection_witness:
  "autocompleteList_show suggesting \<and> selectedIndex suggesting = - 1 \<and>
   step chat_parse suggesting (KeyPress Enter) = suggesting"
proof -
  have shown: "autocompleteList_show suggesting"
    by (simp add: suggesting_def showAutocomplete_def)
  have none: "selectedIndex suggesting = - 1"
    by (simp add: suggesting_def showAutocomplete_def)
  from enter_without_selection[OF shown none, of chat_parse]
  show ?thesis using shown none by blast
qed

section \<open>Submission\<close>

lemma in_flight_step:
  "isProcessing s \<Longrightarrow> \<not> chat_settles e \<Longrightarrow>
   isProcessing (step parse s e) \<and> terminalBody (step parse s e) = terminalBody s \<and>
   sent (step parse s e) = sent s"
  by (cases e)
    (auto simp: step_def keypress_def navigateAutocomplete_def hideAutocomplete_def Let_def
      handleAutocomplete_def clearTimeout_def setTimeout_def item_click_def focus_def
      timer_fires_def run_callback_def suggest_settled_def showAutocomplete_def
      console_error_def createSession_resume_def
      split: key.splits option.splits callback.splits suggest_outcome.splits
        session_outcome.splits session_body.splits prod.splits)

lemma in_flight_run:
  "isProcessing s \<Longrightarrow> list_all (\<lambda>e. \<not> chat_settles e) es \<Longrightarrow>
   isProcessing (run parse s es) \<and> terminalBody (run parse s es) = terminalBody s \<and>
   sent (run parse s es) = sent s"
proof (induction es arbitrary: s)
  case Nil
  then show ?case by (simp add: run_def)
next
  case (Cons e es)
  from Cons.prems have e: "\<not> chat_settles e" and es: "list_all (\<lambda>e. \<not> chat_settles e) es"
    by simp_all
  from in_flight_step[OF Cons.prems(1) e, of parse]
  have 1: "isProcessing (step parse s e)" and 2: "terminalBody (step parse s e) = terminalBody s"
    and 3: "sent (step parse s e) = sent s" by simp_all
  from Cons.IH[OF 1 es] 2 3 show ?case by (simp add: run_def)
qed

lemma handleInput_dispatch:
  assumes "trim (userInput_value s) \<noteq> []" "\<not> isProcessing s"
  shows "isProcessing (handleInput s)"
    and "userInput_disabled (handleInput s)"
    and "terminalBody (handleInput s) =
           terminalBody s @ [Line user_prompt ''output user'' (trim (userInput_value s)) [], TypingLine []]"
    and "sent (handleInput s) = sent s @ [\<lparr>message = trim (userInput_value s), session_id = sessionId s\<rparr>]"
  using assms by (simp_all add: handleInput_def Let_def addLine_def addTypingLine_def)

lemma resume_unlocked:
  "\<not> isProcessing (handleInput_resume parse out s)"
  "\<not> userInput_disabled (handleInput_resume parse out s)"
  "userInput_focused (handleInput_resume parse out s)"
  by (subst handleInput_resume_frame, simp)+

text \<open>
  Claim C3.  When \<open>handleInput\<close> dispatches a request (the trimmed input is not empty
  and the lock is free), the lock is held while other events come in, and once the
  request has settled in any way (a stream that ends, a status that is no success, a
  rejected \<open>fetch\<close>, a missing body, a rejected read) the lock is false, the input
  is enabled and it has the focus.
\<close>

theorem lock_released_after_outcome:
  assumes "trim (userInput_value s) \<noteq> []" and "\<not> isProcessing s"
    and "list_all (\<lambda>e. \<not> chat_settles e) es"
  shows "isProcessing (run parse (handleInput s) es) \<and>
         \<not> isProcessing (step parse (run parse (handleInput s) es) (ChatSettled out)) \<and>
         \<not> userInput_disabled (step parse (run parse (handleInput s) es) (ChatSettled out)) \<and>
         userInput_focused (step parse (run parse (handleInput s) es) (ChatSettled out))"
proof -
  have "isProcessing (handleInput s)" using assms(1,2) by (rule handleInput_dispatch)
  then have "isProcessing (run parse (handleInput s) es)"
    using assms(3) in_flight_run by blast
  then show ?thesis by (simp add: step_def resume_unlocked)
qed

theorem lock_released_after_outcome_witness:
  "trim (userInput_value asking) \<noteq> [] \<and> \<not> isProcessing asking \<and>
   list_all (\<lambda>e. \<not> chat_settles e) [KeyPress ArrowDown, Elapse 100] \<and>
   isProcessing (run chat_parse (handleInput asking) [KeyPress ArrowDown, Elapse 100]) \<and>
   \<not> isProcessing
       (step chat_parse (run chat_parse (handleInput asking) [KeyPress ArrowDown, Elapse 100])
          (ChatSettled (FetchRejected ''Failed to fetch''))) \<and>
   \<not> userInput_disabled
       (step chat_parse (run chat_parse (handleInput asking) [KeyPress ArrowDown, Elapse 100])
          (ChatSettled (FetchRejected ''Failed to fetch''))) \<and>
   userInput_focused
       (step chat_parse (run chat_parse (handleInput asking) [KeyPress ArrowDown, Elapse 100])
          (ChatSettled (FetchRejected ''Failed to fetch'')))"
proof -
  have message: "trim (userInput_value asking) \<noteq> []"
    by code_simp
  have free: "\<not> isProcessing asking"
    by (simp add: asking_def new_Terminal_def)
  have others: "list_all (\<lambda>e. \<not> chat_settles e) [KeyPress ArrowDown, Elapse 100]"
    by simp
  from lock_released_after_outcome[OF message free others,
      of chat_parse "FetchRejected ''Failed to fetch''"]
  show ?thesis using message free others by blast
qed

lemma remove_set_typing: "remove_typing_line (set_typing_output t es) = remove_typing_line es"
  by (induction es rule: remove_typing_line.induct) simp_all

lemma remove_typing_append:
  "no_typing es \<Longrightarrow> remove_typing_line (es @ TypingLine t # fs) = es @ fs"
  by (induction es rule: remove_typing_line.induct) (simp_all add: no_typing_def)

lemma process_record_remove:
  "remove_typing_line (terminalBody (fst (snd (process_record json l s)))) = remove_typing_line (terminalBody s)"
  by (auto simp: process_record_def updateTypingLine_def Let_def remove_set_typing split: option.splits)

lemma for_lines_remove:
  "remove_typing_line (terminalBody (snd (for_lines parse ls l s))) = remove_typing_line (terminalBody s)"
proof (induction ls arbitrary: l s)
  case Nil
  show ?case by simp
next
  case (Cons line rest)
  show ?case
  proof (cases "startsWith line ''data: '' \<and> trim (slice_from 6 line) \<noteq> []")
    case False
    then show ?thesis using Cons.IH[of l s] by (auto simp: Let_def)
  next
    case marked: True
    show ?thesis
    proof (cases "parse (slice_from 6 line)")
      case None
      then show ?thesis using marked Cons.IH[of l s] by (simp add: Let_def)
    next
      case (Some json)
      obtain l' s' br where pr: "process_record json l s = (l', s', br)"
        by (cases "process_record json l s") auto
      from process_record_remove[of json l s] pr
      have b: "remove_typing_line (terminalBody s') = remove_typing_line (terminalBody s)"
        by simp
      show ?thesis using marked Some pr b Cons.IH[of l' s']
        by (cases br) (simp_all add: Let_def)
    qed
  qed
qed

lemma read_loop_remove:
  "remove_typing_line (terminalBody (snd (read_loop parse cs l s))) = remove_typing_line (terminalBody s)"
proof (induction cs arbitrary: l s)
  case Nil
  show ?case by simp
next
  case (Cons c cs)
  obtain l' s' where fl: "for_lines parse (split_nl c) l s = (l', s')"
    by (cases "for_lines parse (split_nl c) l s") auto
  from for_lines_remove[of parse "split_nl c" l s] fl
  have "remove_typing_line (terminalBody s') = remove_typing_line (terminalBody s)" by simp
  then show ?case using fl Cons.IH[of l' s'] by simp
qed

lemma catch_body:
  "terminalBody (handleInput_finally (handleInput_catch msg s)) =
     remove_typing_line (terminalBody s) @ [Line adam_prompt ''output error'' (error_prefix @ msg) []]"
  by (simp add: handleInput_finally_def handleInput_catch_def focus_def addLine_def
      removeTypingLine_def console_error_def)

lemma resume_failure_body:
  assumes "failure_message out = Some msg"
  shows "terminalBody (handleInput_resume parse out s) =
     remove_typing_line (terminalBody s) @ [Line adam_prompt ''output error'' (error_prefix @ msg) []]"
proof (cases out)
  case (FetchRejected m)
  then show ?thesis using assms catch_body[of m s]
    by (simp add: handleInput_resume_def failure_message_def)
next
  case (Response status body)
  show ?thesis
  proof (cases "response_ok status")
    case False
    then show ?thesis using assms Response catch_body[of _ s]
      by (auto simp add: handleInput_resume_def failure_message_def)
  next
    case True
    show ?thesis
    proof (cases body)
      case (NoBody m)
      then show ?thesis using assms True Response catch_body[of m s]
        by (simp add: handleInput_resume_def failure_message_def)
    next
      case (Stream chunks ending)
      obtain l s1 where
        rl: "read_loop parse chunks \<lparr>fullResponse = [], imageUrls = []\<rparr> s = (l, s1)"
        by (cases "read_loop parse chunks \<lparr>fullResponse = [], imageUrls = []\<rparr> s") auto
      from read_loop_remove[of parse chunks "\<lparr>fullResponse = [], imageUrls = []\<rparr>" s] rl
      have b: "remove_typing_line (terminalBody s1) = remove_typing_line (terminalBody s)" by simp
      show ?thesis
      proof (cases ending)
        case Closed
        then show ?thesis using assms True Response Stream
          by (simp add: failure_message_def)
      next
        case (Errored m)
        then show ?thesis using assms True Response Stream rl b catch_body[of m s1]
          by (simp add: handleInput_resume_def failure_message_def)
      qed
    qed
  qed
qed

section \<open>The stream and the committed entry\<close>

lemma process_record_events:
  "process_record json l s =
     (fst (foldl apply_event (l, s) (record_events json)),
      snd (foldl apply_event (l, s) (record_events json)),
      json_done json = Some True)"
  by (auto simp: process_record_def record_events_def Let_def split: option.splits)

lemma for_lines_events:
  "for_lines parse ls l s = foldl apply_event (l, s) (lines_events parse ls)"
proof (induction ls arbitrary: l s)
  case Nil
  show ?case by simp
next
  case (Cons line rest)
  show ?case
  proof (cases "startsWith line ''data: '' \<and> trim (slice_from 6 line) \<noteq> []")
    case False
    then show ?thesis using Cons.IH[of l s] by (auto simp: Let_def)
  next
    case marked: True
    show ?thesis
    proof (cases "parse (slice_from 6 line)")
      case None
      then show ?thesis using marked Cons.IH[of l s] by (simp add: Let_def)
    next
      case (Some json)
      obtain l' s' where ev: "foldl apply_event (l, s) (record_events json) = (l', s')"
        by (cases "foldl apply_event (l, s) (record_events json)") auto
      then show ?thesis using marked Some Cons.IH[of l' s']
        by (simp add: Let_def process_record_events)
    qed
  qed
qed

lemma read_loop_events:
  "read_loop parse cs l s = foldl apply_event (l, s) (stream_events parse cs)"
proof (induction cs arbitrary: l s)
  case Nil
  show ?case by (simp add: stream_events_def)
next
  case (Cons c cs)
  obtain l' s' where fl: "foldl apply_event (l, s) (chunk_events parse c) = (l', s')"
    by (cases "foldl apply_event (l, s) (chunk_events parse c)") auto
  then show ?case using Cons.IH[of l' s']
    by (simp add: stream_events_def for_lines_events chunk_events_def)
qed

lemma apply_events_locals:
  "fullResponse (fst (foldl apply_event (l, s) evs)) = fullResponse l @ concat (token_texts evs) \<and>
   imageUrls (fst (foldl apply_event (l, s) evs)) =
     (if image_lists evs = [] then imageUrls l else last (image_lists evs))"
proof (induction evs arbitrary: l s)
  case Nil
  show ?case by simp
next
  case (Cons e evs)
  show ?case using Cons.IH by (cases e) simp_all
qed

lemma record_events_tokens: "[] \<notin> set (token_texts (record_events json))"
  by (auto simp: record_events_def split: option.splits)

lemma token_texts_append: "token_texts (xs @ ys) = token_texts xs @ token_texts ys"
  by (induction xs rule: token_texts.induct) simp_all

lemma lines_events_tokens: "[] \<notin> set (token_texts (lines_events parse ls))"
proof (induction ls)
  case Nil
  show ?case by simp
next
  case (Cons line rest)
  then show ?case using record_events_tokens
    by (auto simp: token_texts_append split: option.splits)
qed

lemma stream_events_tokens: "[] \<notin> set (token_texts (stream_events parse cs))"
  by (induction cs)
    (auto simp: stream_events_def chunk_events_def token_texts_append lines_events_tokens)

lemma concat_nonempty: "[] \<notin> set xss \<Longrightarrow> (concat xss = []) = (xss = [])"
  by (cases xss) auto

text \<open>
  Claim C5.  When the request in flight is answered with a success status and its
  stream ends, the in-progress entry is replaced by one committed entry.  Its text is
  the concatenation, in order, of the texts of the \<open>Token\<close> events of the stream,
  and the ``no response'' placeholder if there was no \<open>Token\<close> event; its images are
  the list of the last \<open>Images\<close> event, and none if there was no such event or its
  list is empty.
\<close>

theorem committed_entry:
  assumes "isProcessing s" and "response_ok status"
  shows "terminalBody (step parse s (ChatSettled (Response status (Stream chunks Closed)))) =
           remove_typing_line (terminalBody s) @
           [Line adam_prompt ''output''
              (if token_texts (stream_events parse chunks) = [] then no_response
               else concat (token_texts (stream_events parse chunks)))
              (if image_lists (stream_events parse chunks) = [] then []
               else last (image_lists (stream_events parse chunks)))]"
proof -
  let ?evs = "stream_events parse chunks"
  let ?l0 = "\<lparr>fullResponse = [], imageUrls = []\<rparr>"
  obtain l s1 where rl: "read_loop parse chunks ?l0 s = (l, s1)"
    by (cases "read_loop parse chunks ?l0 s") auto
  from read_loop_remove[of parse chunks ?l0 s] rl
  have rm: "remove_typing_line (terminalBody s1) = remove_typing_line (terminalBody s)" by simp
  from apply_events_locals[of ?l0 s ?evs] rl
  have full: "fullResponse l = concat (token_texts ?evs)"
    and imgs: "imageUrls l = (if image_lists ?evs = [] then [] else last (image_lists ?evs))"
    by (simp_all add: read_loop_events)
  have empty: "(concat (token_texts ?evs) = []) = (token_texts ?evs = [])"
    using stream_events_tokens by (rule concat_nonempty)
  show ?thesis using assms rl rm full imgs empty
    by (simp add: step_def handleInput_resume_def handleInput_finally_def focus_def addLine_def
        removeTypingLine_def)
qed

theorem committed_entry_witness:
  \<open>isProcessing (handleInput asking) \<and> response_ok 200 \<and>
   terminalBody
     (step chat_parse (handleInput asking)
        (ChatSettled (Response 200
           (Stream [''data: {"token":"Hi"}\<newline>'',
                    ''data: {"token":" there"}\<newline>data: {"done":true}\<newline>'']
              Closed)))) =
     [Line user_prompt ''output user'' ''Hi'' [],
      Line adam_prompt ''output'' ''Hi there'' []]\<close>
proof -
  let ?chunks = \<open>[''data: {"token":"Hi"}\<newline>'',
                  ''data: {"token":" there"}\<newline>data: {"done":true}\<newline>'']\<close>
  have flight: "isProcessing (handleInput asking)"
    by code_simp
  have ok: "response_ok 200"
    by (simp add: response_ok_def)
  have tokens: "token_texts (stream_events chat_parse ?chunks) = [''Hi'', '' there'']"
    by code_simp
  have images: "image_lists (stream_events chat_parse ?chunks) = []"
    by code_simp
  have log: "remove_typing_line (terminalBody (handleInput asking)) =
      [Line user_prompt ''output user'' ''Hi'' []]"
    by code_simp
  from committed_entry[OF flight ok, of chat_parse ?chunks]
  show ?thesis using flight ok
    by (simp add: tokens images log)
qed

section \<open>The in-progress entry\<close>

lemma count_set_typing:
  "length (filter is_typing (set_typing_output t es)) = length (filter is_typing es)"
  by (induction es rule: set_typing_output.induct) simp_all

lemma count_remove_typing:
  "length (filter is_typing (remove_typing_line es)) = length (filter is_typing es) - 1"
  by (induction es rule: remove_typing_line.induct) simp_all

lemma apply_events_count:
  "length (filter is_typing (terminalBody (snd (foldl apply_event (l, s) evs)))) =
   length (filter is_typing (terminalBody s))"
proof (induction evs arbitrary: l s)
  case Nil
  show ?case by simp
next
  case (Cons e evs)
  show ?case using Cons.IH
    by (cases e) (simp_all add: updateTypingLine_def count_set_typing)
qed

lemma resume_count:
  "length (filter is_typing (terminalBody (handleInput_resume parse out s))) =
   length (filter is_typing (terminalBody s)) - 1"
proof (cases "failure_message out")
  case (Some msg)
  then show ?thesis by (simp add: resume_failure_body count_remove_typing)
next
  case None
  then obtain status chunks where out: "out = Response status (Stream chunks Closed)"
    and ok: "response_ok status"
    by (auto simp: failure_message_def split: chat_outcome.splits if_splits body.splits stream_end.splits)
  obtain l s1 where rl: "read_loop parse chunks \<lparr>fullResponse = [], imageUrls = []\<rparr> s = (l, s1)"
    by (cases "read_loop parse chunks \<lparr>fullResponse = [], imageUrls = []\<rparr> s") auto
  from apply_events_count[of "\<lparr>fullResponse = [], imageUrls = []\<rparr>" s "stream_events parse chunks"] rl
  have "length (filter is_typing (terminalBody s1)) = length (filter is_typing (terminalBody s))"
    by (simp add: read_loop_events)
  then show ?thesis using out ok rl
    by (simp add: handleInput_resume_def handleInput_finally_def focus_def addLine_def
        removeTypingLine_def count_remove_typing)
qed

lemma log_ok_handleInput: "log_ok s \<Longrightarrow> log_ok (handleInput s)"
  by (auto simp: log_ok_def handleInput_def Let_def addLine_def addTypingLine_def
      split: if_splits)

lemma log_ok_cong:
  "terminalBody s' = terminalBody s \<Longrightarrow> isProcessing s' = isProcessing s \<Longrightarrow>
   log_ok s' = log_ok s"
  by (simp add: log_ok_def)

lemma log_ok_keypress: "log_ok s \<Longrightarrow> log_ok (keypress k s)"
proof -
  assume ok: "log_ok s"
  have hide: "log_ok (hideAutocomplete t) = log_ok t" for t
    by (simp add: log_ok_def hideAutocomplete_def)
  have nav: "log_ok (navigateAutocomplete d t) = log_ok t" for d t
    by (simp add: log_ok_def navigateAutocomplete_def Let_def)
  have val: "log_ok (t\<lparr>userInput_value := v\<rparr>) = log_ok t" for t v
    by (simp add: log_ok_def)
  show ?thesis using ok
    by (cases k) (auto simp: keypress_def hide nav val log_ok_handleInput split: option.splits)
qed

lemma page_events_frame:
  assumes "\<not> chat_settles e" and "\<And>k. e \<noteq> KeyPress k"
  shows "terminalBody (step parse s e) = terminalBody s \<and>
         isProcessing (step parse s e) = isProcessing s"
  using assms
  by (cases e)
    (auto simp: step_def handleAutocomplete_def Let_def hideAutocomplete_def clearTimeout_def
      setTimeout_def item_click_def focus_def timer_fires_def run_callback_def
      suggest_settled_def showAutocomplete_def console_error_def createSession_resume_def
      split: option.splits callback.splits suggest_outcome.splits session_outcome.splits
        session_body.splits)

lemma log_ok_step: "log_ok s \<Longrightarrow> log_ok (step parse s e)"
proof -
  assume ok: "log_ok s"
  consider (key) k where "e = KeyPress k" | (chat) out where "e = ChatSettled out"
    | (page) "\<not> chat_settles e" and "\<And>k. e \<noteq> KeyPress k"
    by (cases e) auto
  then show ?thesis
  proof cases
    case key
    then show ?thesis using ok by (simp add: step_def log_ok_keypress)
  next
    case chat
    have idle: "log_ok (step parse s e)" if "\<not> isProcessing s"
      using that chat ok by (simp add: step_def)
    have "length (filter is_typing (terminalBody (handleInput_resume parse out s))) = 1 - 1"
      if "isProcessing s"
      using that ok by (simp only: resume_count log_ok_def if_True)
    then have "log_ok (step parse s e)" if "isProcessing s"
      using that chat resume_unlocked(1)[of parse out s]
      by (simp add: step_def log_ok_def)
    with idle show ?thesis by blast
  next
    case page
    from page_events_frame[OF page, of parse s] show ?thesis
      using ok log_ok_cong by blast
  qed
qed

lemma log_ok_idle: "log_ok s \<Longrightarrow> \<not> isProcessing s \<Longrightarrow> no_typing (terminalBody s)"
  by (simp add: log_ok_def no_typing_def list_ex_iff filter_empty_conv)

lemma log_ok_new: "log_ok (new_Terminal body) = no_typing body"
  by (auto simp add: log_ok_def no_typing_def new_Terminal_def list_ex_iff filter_empty_conv)

text \<open>
  Claim C4.  The log has one in-progress entry while a submission is in flight and
  none otherwise: the constructor gives such a state for a page without one, and
  every event keeps it so.  When a request is dispatched in such a state and fails
  (\<open>fetch\<close> rejects, the status is no success, the body is missing or a read of the
  stream rejects), the log afterwards is the log before, the user's line and one
  error line that carries the failure description; it has no in-progress entry, and
  the one request of the submission is the only one dispatched.
\<close>

theorem failed_request_one_error_entry:
  assumes "log_ok s"
    and "trim (userInput_value s) \<noteq> []" and "\<not> isProcessing s"
    and "list_all (\<lambda>e. \<not> chat_settles e) es"
    and "failure_message out = Some msg"
  shows "log_ok (new_Terminal body) = no_typing body \<and>
         log_ok (step parse s e) \<and>
         terminalBody (step parse (run parse (handleInput s) es) (ChatSettled out)) =
           terminalBody s @
           [Line user_prompt ''output user'' (trim (userInput_value s)) [],
            Line adam_prompt ''output error'' (error_prefix @ msg) []] \<and>
         no_typing (terminalBody (step parse (run parse (handleInput s) es) (ChatSettled out))) \<and>
         sent (step parse (run parse (handleInput s) es) (ChatSettled out)) =
           sent s @ [\<lparr>message = trim (userInput_value s), session_id = sessionId s\<rparr>]"
proof -
  let ?s1 = "run parse (handleInput s) es"
  let ?user = "Line user_prompt ''output user'' (trim (userInput_value s)) []"
  have d: "isProcessing (handleInput s)" using assms(2,3) by (rule handleInput_dispatch)
  have idle: "no_typing (terminalBody s)" using assms(1,3) by (rule log_ok_idle)
  from in_flight_run[OF d assms(4), of parse] handleInput_dispatch(3,4)[OF assms(2,3)]
  have p: "isProcessing ?s1"
    and b: "terminalBody ?s1 = (terminalBody s @ [?user]) @ TypingLine [] # []"
    and r: "sent ?s1 = sent s @ [\<lparr>message = trim (userInput_value s), session_id = sessionId s\<rparr>]"
    by simp_all
  have nt: "no_typing (terminalBody s @ [?user])"
    using idle by (simp add: no_typing_def)
  have rm: "remove_typing_line (terminalBody ?s1) = terminalBody s @ [?user]"
    unfolding b using nt by (simp only: remove_typing_append append_Nil2)
  have st: "step parse ?s1 (ChatSettled out) = handleInput_resume parse out ?s1"
    using p by (simp add: step_def)
  have body: "terminalBody (step parse ?s1 (ChatSettled out)) =
      terminalBody s @ [?user, Line adam_prompt ''output error'' (error_prefix @ msg) []]"
    unfolding st resume_failure_body[OF assms(5)] rm by simp
  have "sent (handleInput_resume parse out ?s1) = sent ?s1"
    by (subst handleInput_resume_frame) simp
  then have sn: "sent (step parse ?s1 (ChatSettled out)) =
      sent s @ [\<lparr>message = trim (userInput_value s), session_id = sessionId s\<rparr>]"
    unfolding st using r by simp
  have "no_typing (terminalBody (step parse ?s1 (ChatSettled out)))"
    unfolding body using idle by (simp add: no_typing_def)
  with body sn log_ok_new log_ok_step[OF assms(1)] show ?thesis by blast
qed

theorem failed_request_one_error_entry_witness:
  "log_ok asking \<and> trim (userInput_value asking) \<noteq> [] \<and> \<not> isProcessing asking \<and>
   list_all (\<lambda>e. \<not> chat_settles e) [Elapse 100] \<and>
   failure_message (Response 500 (Stream [] Closed)) = Some ''HTTP error! status: 500'' \<and>
   terminalBody
     (step chat_parse (run chat_parse (handleInput asking) [Elapse 100])
        (ChatSettled (Response 500 (Stream [] Closed)))) =
     [Line user_prompt ''output user'' ''Hi'' [],
      Line adam_prompt ''output error'' (error_prefix @ ''HTTP error! status: 500'') []] \<and>
   sent
     (step chat_parse (run chat_parse (handleInput asking) [Elapse 100])
        (ChatSettled (Response 500 (Stream [] Closed)))) =
     [\<lparr>message = ''Hi'', session_id = Null\<rparr>]"
proof -
  have message: "trim (userInput_value asking) \<noteq> []"
    by code_simp
  have free: "\<not> isProcessing asking"
    by (simp add: asking_def new_Terminal_def)
  have log: "log_ok asking"
    by (simp add: asking_def new_Terminal_def log_ok_def)
  have others: "list_all (\<lambda>e. \<not> chat_settles e) [Elapse 100]"
    by simp
  have failed: "failure_message (Response 500 (Stream [] Closed)) =
      Some ''HTTP error! status: 500''"
    by code_simp
  have trimmed: "trim (userInput_value asking) = ''Hi''"
    by code_simp
  have start: "terminalBody asking = []" "sent asking = []" "sessionId asking = Null"
    by (simp_all add: asking_def new_Terminal_def)
  from failed_request_one_error_entry[OF log message free others failed, of "[]" chat_parse Blur]
  show ?thesis using message free log others failed
    by (simp add: trimmed start)
qed

section \<open>Chunk boundaries\<close>

lemma split_nl_nonempty: "split_nl s \<noteq> []"
  by (induction s) (auto split: list.splits)

lemma split_nl_append: "split_nl (xs @ newline # ys) = split_nl xs @ split_nl ys"
proof (induction xs)
  case Nil
  show ?case by simp
next
  case (Cons c xs)
  obtain l ls where sp: "split_nl xs = l # ls"
    using split_nl_nonempty[of xs] by (cases "split_nl xs") auto
  show ?case using Cons.IH sp by simp
qed

lemma lines_events_append:
  "lines_events parse (as @ bs) =
     (if Done \<in> set (lines_events parse as) then lines_events parse as
      else lines_events parse as @ lines_events parse bs)"
proof (induction as)
  case Nil
  show ?case by simp
next
  case (Cons line rest)
  show ?case
  proof (cases "startsWith line ''data: '' \<and> trim (slice_from 6 line) \<noteq> []")
    case False
    then show ?thesis using Cons.IH by auto
  next
    case marked: True
    show ?thesis
    proof (cases "parse (slice_from 6 line)")
      case None
      then show ?thesis using marked Cons.IH by simp
    next
      case (Some json)
      have d: "(Done \<in> set (record_events json)) = (json_done json = Some True)"
        by (auto simp: record_events_def split: option.splits)
      show ?thesis using marked Some Cons.IH d by auto
    qed
  qed
qed

lemma blank_not_marked [simp]: "\<not> startsWith [] ''data: ''"
  by (simp add: startsWith_def)

lemma lines_events_blank: "lines_events parse [[]] = []"
  by simp

lemma chunk_events_append:
  assumes "c = [] \<or> last c = newline" and "Done \<notin> set (chunk_events parse c)"
  shows "chunk_events parse (c @ rest) = chunk_events parse c @ chunk_events parse rest"
proof (cases "c = []")
  case True
  then show ?thesis by (simp add: chunk_events_def startsWith_def)
next
  case False
  with assms(1) obtain xs where c: "c = xs @ [newline]"
    by (metis append_butlast_last_id)
  have whole: "split_nl c = split_nl xs @ [[]]"
    unfolding c using split_nl_append[of xs "[]"] by simp
  have own: "chunk_events parse c = lines_events parse (split_nl xs)"
    unfolding chunk_events_def whole by (simp add: lines_events_append lines_events_blank)
  have "split_nl (c @ rest) = split_nl xs @ split_nl rest"
    unfolding c using split_nl_append[of xs rest] by simp
  then have "chunk_events parse (c @ rest) =
      lines_events parse (split_nl xs) @ lines_events parse (split_nl rest)"
    using assms(2) own by (simp add: chunk_events_def lines_events_append)
  then show ?thesis using own by (simp add: chunk_events_def)
qed

lemma stream_events_concat:
  assumes "\<forall>c \<in> set (butlast chunks). (c = [] \<or> last c = newline) \<and> Done \<notin> set (chunk_events parse c)"
  shows "stream_events parse chunks = chunk_events parse (concat chunks)"
  using assms
proof (induction chunks)
  case Nil
  show ?case by (simp add: stream_events_def chunk_events_def startsWith_def)
next
  case (Cons c cs)
  show ?case
  proof (cases "cs = []")
    case True
    then show ?thesis by (simp add: stream_events_def)
  next
    case False
    with Cons.prems have c: "c = [] \<or> last c = newline" "Done \<notin> set (chunk_events parse c)"
      and rest: "\<forall>c \<in> set (butlast cs). (c = [] \<or> last c = newline) \<and> Done \<notin> set (chunk_events parse c)"
      by simp_all
    have "stream_events parse (c # cs) = chunk_events parse c @ stream_events parse cs"
      by (simp add: stream_events_def)
    also have "\<dots> = chunk_events parse c @ chunk_events parse (concat cs)"
      using Cons.IH[OF rest] by simp
    also have "\<dots> = chunk_events parse (c @ concat cs)"
      using chunk_events_append[OF c] by simp
    finally show ?thesis by simp
  qed
qed

text \<open>
  Claim C1, as the code has it.  The loop splits each chunk into lines by itself and
  keeps nothing from one chunk to the next: what it does is what applying the events
  of each chunk in turn does.  For every splitting of a stream in which every chunk
  but the last is empty or ends with a line feed, and holds no record with a true
  \<open>done\<close>, the events are those of the stream delivered as one chunk, and the loop
  ends in the same state.
\<close>

theorem chunk_boundaries_at_line_ends:
  assumes "\<forall>c \<in> set (butlast chunks). c = [] \<or> last c = newline"
    and "\<forall>c \<in> set (butlast chunks). Done \<notin> set (chunk_events parse c)"
  shows "read_loop parse chunks l s = foldl apply_event (l, s) (stream_events parse chunks) \<and>
         stream_events parse chunks = stream_events parse [concat chunks] \<and>
         read_loop parse chunks l s = read_loop parse [concat chunks] l s"
proof -
  have "stream_events parse chunks = chunk_events parse (concat chunks)"
    using assms by (intro stream_events_concat) blast
  then have ev: "stream_events parse chunks = stream_events parse [concat chunks]"
    by (simp add: stream_events_def)
  then show ?thesis by (simp only: read_loop_events) 
qed

theorem chunk_boundaries_at_line_ends_witness:
  \<open>last ''data: {"token":"Hi"}\<newline>'' = newline \<and>
   Done \<notin> set (chunk_events chat_parse ''data: {"token":"Hi"}\<newline>'') \<and>
   stream_events chat_parse
     [''data: {"token":"Hi"}\<newline>'',
      ''data: {"token":" there"}\<newline>data: {"done":true}\<newline>''] =
   stream_events chat_parse
     [concat [''data: {"token":"Hi"}\<newline>'',
              ''data: {"token":" there"}\<newline>data: {"done":true}\<newline>'']]\<close>
proof -
  let ?first = \<open>''data: {"token":"Hi"}\<newline>''\<close>
  let ?chunks = \<open>[?first, ''data: {"token":" there"}\<newline>data: {"done":true}\<newline>'']\<close>
  have line_end: "last ?first = newline"
    by (simp add: newline_def)
  have no_done: "Done \<notin> set (chunk_events chat_parse ?first)"
    by code_simp
  have ends: "\<forall>c \<in> set (butlast ?chunks). c = [] \<or> last c = newline"
    using line_end by simp
  have going: "\<forall>c \<in> set (butlast ?chunks). Done \<notin> set (chunk_events chat_parse c)"
    using no_done by simp
  from chunk_boundaries_at_line_ends[OF ends going]
  show ?thesis using line_end no_done by blast
qed

text \<open>
  Claim C1 as stated fails: there is no buffer.  A record cut by a chunk boundary is
  read as two lines, the first no JSON and the second without the marker, and gives
  no event; the same text in one chunk gives the \<open>Token\<close>.
\<close>

theorem cut_record_is_lost:
  \<open>stream_events chat_parse [''data: {"tok'', ''en":"Hi"}\<newline>''] = [] \<and>
   stream_events chat_parse [''data: {"tok'' @ ''en":"Hi"}\<newline>''] = [Token ''Hi'']\<close>
  by code_simp

section \<open>The end of the stream\<close>

text \<open>
  Claim C2, at the input where the code departs from it.  The \<open>break\<close> at a true
  \<open>done\<close> leaves the \<open>for\<close> loop over the lines of the chunk, not the \<open>while\<close> loop
  over the reads: a chunk that arrives after the record is read all the same, its
  token is an event after \<open>Done\<close>, and it is the text that is committed.
\<close>

theorem done_does_not_end_reading:
  \<open>stream_events chat_parse
     [''data: {"done":true}\<newline>'', ''data: {"token":"late"}\<newline>''] =
     [Done, Token ''late''] \<and>
   terminalBody
     (step chat_parse (handleInput asking)
        (ChatSettled (Response 200
           (Stream [''data: {"done":true}\<newline>'', ''data: {"token":"late"}\<newline>'']
              Closed)))) =
     [Line user_prompt ''output user'' ''Hi'' [],
      Line adam_prompt ''output'' ''late'' []]\<close>
  by code_simp

section \<open>Accepting a suggestion\<close>

text \<open>
  Claim C8, as the code has it.  The Enter key on an open list with an item selected,
  while no submission is in flight, writes the item's name to the input, closes the
  list with \<open>selectedIndex\<close> at \<open>-1\<close> and runs \<open>handleInput\<close> on that input: if the
  name trimmed is not empty, one request is dispatched whose message is the trimmed
  name, and the input is cleared; if it is empty, nothing is dispatched and the input
  keeps the name.
\<close>

theorem accept_suggestion:
  assumes "\<not> isProcessing s" and "autocompleteList_show s"
    and "item_at (autocompleteList_items s) (selectedIndex s) = Some it"
  shows "step parse s (KeyPress Enter) =
           handleInput (hideAutocomplete (s\<lparr>userInput_value := item_name it\<rparr>)) \<and>
         \<not> autocompleteList_show (step parse s (KeyPress Enter)) \<and>
         selectedIndex (step parse s (KeyPress Enter)) = - 1 \<and>
         sent (step parse s (KeyPress Enter)) =
           sent s @ (if trim (item_name it) = [] then []
                     else [\<lparr>message = trim (item_name it), session_id = sessionId s\<rparr>]) \<and>
         userInput_value (step parse s (KeyPress Enter)) =
           (if trim (item_name it) = [] then item_name it else []) \<and>
         isProcessing (step parse s (KeyPress Enter)) = (trim (item_name it) \<noteq> [])"
proof -
  have st: "step parse s (KeyPress Enter) =
      handleInput (hideAutocomplete (s\<lparr>userInput_value := item_name it\<rparr>))"
    using assms by (simp add: step_def keypress_def)
  show ?thesis unfolding st using assms(1)
    by (simp add: handleInput_def hideAutocomplete_def Let_def addLine_def addTypingLine_def)
qed

theorem accept_suggestion_witness:
  "\<not> isProcessing (selecting mona_lisa) \<and> autocompleteList_show (selecting mona_lisa) \<and>
   item_at (autocompleteList_items (selecting mona_lisa)) (selectedIndex (selecting mona_lisa)) =
     Some \<lparr>item_name = ''Mona Lisa'', item_info = ''1503'', item_selected = True\<rparr> \<and>
   \<not> autocompleteList_show (step chat_parse (selecting mona_lisa) (KeyPress Enter)) \<and>
   selectedIndex (step chat_parse (selecting mona_lisa) (KeyPress Enter)) = - 1 \<and>
   sent (step chat_parse (selecting mona_lisa) (KeyPress Enter)) =
     [\<lparr>message = ''Mona Lisa'', session_id = Null\<rparr>]"
proof -
  have free: "\<not> isProcessing (selecting mona_lisa)"
    by code_simp
  have shown: "autocompleteList_show (selecting mona_lisa)"
    by code_simp
  have chosen: "item_at (autocompleteList_items (selecting mona_lisa))
      (selectedIndex (selecting mona_lisa)) =
      Some \<lparr>item_name = ''Mona Lisa'', item_info = ''1503'', item_selected = True\<rparr>"
    by code_simp
  have trimmed: "trim ''Mona Lisa'' = ''Mona Lisa''"
    by code_simp
  have start: "sent (selecting mona_lisa) = []" "sessionId (selecting mona_lisa) = Null"
    by code_simp+
  from accept_suggestion[OF free shown chosen, of chat_parse, THEN conjunct2]
  show ?thesis using free shown chosen
    by (simp add: trimmed start)
qed

text \<open>
  Claim C8 as stated fails: the message is the name trimmed, not the name.  For the
  suggestion \<open>'' Mona Lisa''\<close> the message dispatched is \<open>''Mona Lisa''\<close>.
\<close>

theorem accepted_name_is_trimmed:
  "autocompleteList_show (selecting padded) \<and>
   map item_name (autocompleteList_items (selecting padded)) = ['' Mona Lisa''] \<and>
   selectedIndex (selecting padded) = 0 \<and>
   map message (sent (step chat_parse (selecting padded) (KeyPress Enter))) = [''Mona Lisa'']"
  by code_simp

section \<open>The session handle\<close>

text \<open>
  Claim C9, at the input where the code departs from it.  \<open>createSession\<close> does not
  look at the status.  An answer with status 500 whose JSON body has no \<open>session_id\<close>
  logs nothing and sets the handle to \<open>undefined\<close>, not \<open>null\<close>; that is the handle
  of the next chat request.
\<close>

theorem createSession_ignores_status:
  "console (step chat_parse (new_Terminal []) (SessionSettled (SessionResponse 500 (JsonData None)))) = [] \<and>
   sessionId (step chat_parse (new_Terminal []) (SessionSettled (SessionResponse 500 (JsonData None)))) = Undefined \<and>
   sent (run chat_parse (new_Terminal [])
          [SessionSettled (SessionResponse 500 (JsonData None)), InputChanged ''Hi'', KeyPress Enter]) =
     [\<lparr>message = ''Hi'', session_id = Undefined\<rparr>]"
  by code_simp

section \<open>Debouncing\<close>

lemma handleInput_timers:
  "timers (handleInput s) = timers s"
  "next_timer (handleInput s) = next_timer s"
  "autocompleteTimeout (handleInput s) = autocompleteTimeout s"
  by (simp_all add: handleInput_def Let_def addLine_def addTypingLine_def)

lemma handleInput_resume_timers:
  "timers (handleInput_resume parse out s) = timers s"
  "next_timer (handleInput_resume parse out s) = next_timer s"
  "autocompleteTimeout (handleInput_resume parse out s) = autocompleteTimeout s"
  by (subst handleInput_resume_frame, simp)+

lemma keypress_timers:
  "timers (keypress k s) = timers s"
  "next_timer (keypress k s) = next_timer s"
  "autocompleteTimeout (keypress k s) = autocompleteTimeout s"
  by (auto simp: keypress_def handleInput_timers hideAutocomplete_def navigateAutocomplete_def
      Let_def split: option.splits)

lemma timers_ok_cong:
  "timers s' = timers s \<Longrightarrow> next_timer s' = next_timer s \<Longrightarrow>
   autocompleteTimeout s' = autocompleteTimeout s \<Longrightarrow> timers_ok s' = timers_ok s"
  by (simp add: timers_ok_def suggestion_timers_def)

lemma gone_cong:
  "timers s' = timers s \<Longrightarrow> next_timer s' = next_timer s \<Longrightarrow> gone h s' = gone h s"
  by (simp add: gone_def)

lemma timers_ok_step: "timers_ok s \<Longrightarrow> timers_ok (step parse s e)"
proof (cases e)
  case (KeyPress k)
  assume "timers_ok s"
  then show ?thesis using KeyPress
    by (simp add: step_def timers_ok_cong[OF keypress_timers])
next
  case (ChatSettled out)
  assume "timers_ok s"
  then show ?thesis using ChatSettled
    by (simp add: step_def timers_ok_cong[OF handleInput_resume_timers])
next
  case (InputChanged v)
  assume "timers_ok s"
  then show ?thesis using InputChanged
    by (auto simp: step_def handleAutocomplete_def Let_def hideAutocomplete_def
        clearTimeout_def setTimeout_def timers_ok_def suggestion_timers_def less_Suc_eq)
next
  case Blur
  assume "timers_ok s"
  then show ?thesis using Blur
    by (auto simp: step_def setTimeout_def timers_ok_def suggestion_timers_def less_Suc_eq)
next
  case (ItemClick i)
  assume "timers_ok s"
  then show ?thesis using ItemClick
    by (simp add: step_def item_click_def focus_def hideAutocomplete_def timers_ok_def
        suggestion_timers_def)
next
  case (Elapse d)
  assume "timers_ok s"
  then show ?thesis using Elapse by (simp add: step_def timers_ok_def suggestion_timers_def)
next
  case (TimerFires h)
  assume "timers_ok s"
  then show ?thesis using TimerFires
    by (auto simp: step_def timer_fires_def run_callback_def focus_def hideAutocomplete_def
        timers_ok_def suggestion_timers_def split: option.splits callback.splits)
next
  case (SuggestSettled i out)
  assume "timers_ok s"
  then show ?thesis using SuggestSettled
    by (auto simp: step_def suggest_settled_def showAutocomplete_def hideAutocomplete_def
        console_error_def timers_ok_def suggestion_timers_def
        split: suggest_outcome.splits option.splits)
next
  case (SessionSettled out)
  assume "timers_ok s"
  then show ?thesis using SessionSettled
    by (auto simp: step_def createSession_resume_def console_error_def timers_ok_def
        suggestion_timers_def split: session_outcome.splits session_body.splits option.splits)
qed

lemma gone_step: "gone h s \<Longrightarrow> gone h (step parse s e)"
proof (cases e)
  case (KeyPress k)
  assume "gone h s"
  then show ?thesis using KeyPress
    by (simp add: step_def gone_cong[OF keypress_timers(1,2)])
next
  case (ChatSettled out)
  assume "gone h s"
  then show ?thesis using ChatSettled
    by (simp add: step_def gone_cong[OF handleInput_resume_timers(1,2)])
next
  case (InputChanged v)
  assume "gone h s"
  then show ?thesis using InputChanged
    by (auto simp: step_def handleAutocomplete_def Let_def hideAutocomplete_def
        clearTimeout_def setTimeout_def gone_def less_Suc_eq)
next
  case Blur
  assume "gone h s"
  then show ?thesis using Blur
    by (auto simp: step_def setTimeout_def gone_def less_Suc_eq)
next
  case (ItemClick i)
  assume "gone h s"
  then show ?thesis using ItemClick
    by (simp add: step_def item_click_def focus_def hideAutocomplete_def gone_def)
next
  case (Elapse d)
  assume "gone h s"
  then show ?thesis using Elapse by (simp add: step_def gone_def)
next
  case (TimerFires h')
  assume "gone h s"
  then show ?thesis using TimerFires
    by (auto simp: step_def timer_fires_def run_callback_def focus_def hideAutocomplete_def
        gone_def split: option.splits callback.splits)
next
  case (SuggestSettled i out)
  assume "gone h s"
  then show ?thesis using SuggestSettled
    by (auto simp: step_def suggest_settled_def showAutocomplete_def hideAutocomplete_def
        console_error_def gone_def split: suggest_outcome.splits option.splits)
next
  case (SessionSettled out)
  assume "gone h s"
  then show ?thesis using SessionSettled
    by (auto simp: step_def createSession_resume_def console_error_def gone_def
        split: session_outcome.splits session_body.splits option.splits)
qed

lemma gone_run: "gone h s \<Longrightarrow> gone h (run parse s es)"
proof (induction es arbitrary: s)
  case Nil
  then show ?case by (simp add: run_def)
next
  case (Cons e es)
  from Cons.IH[OF gone_step[OF Cons.prems, of parse e]] show ?case by (simp add: run_def)
qed

lemma gone_never_fires: "gone h s \<Longrightarrow> step parse s (TimerFires h) = s"
proof -
  assume "gone h s"
  then have "find (\<lambda>t. timer_id t = h) (timers s) = None"
    by (auto simp: gone_def find_None_iff)
  then show ?thesis by (simp add: step_def timer_fires_def)
qed

lemma find_last:
  "\<forall>x \<in> set xs. \<not> P x \<Longrightarrow> P y \<Longrightarrow> find P (xs @ [y]) = Some y"
  by (induction xs) auto

lemma input_schedules:
  fixes parse :: "string \<Rightarrow> payload option"
  assumes "timers_ok s" and "trim v \<noteq> []"
  defines "s' \<equiv> step parse s (InputChanged v)"
  defines "new \<equiv> \<lparr>timer_id = next_timer s, timer_due = clock s + 300,
                   timer_callback = FetchSuggestions (trim v)\<rparr>"
  shows "timers s' = filter (\<lambda>t. Some (timer_id t) \<noteq> autocompleteTimeout s) (timers s) @ [new]"
    and "suggestion_timers s' = [new]"
    and "autocompleteTimeout s' = Some (next_timer s)"
    and "clock s' = clock s"
    and "fetching s' = fetching s"
    and "\<forall>t \<in> set (suggestion_timers s). gone (timer_id t) s'"
proof -
  show t: "timers s' = filter (\<lambda>t. Some (timer_id t) \<noteq> autocompleteTimeout s) (timers s) @ [new]"
    using assms(2) by (simp add: s'_def new_def step_def handleAutocomplete_def Let_def
        clearTimeout_def setTimeout_def)
  have none: "filter fetches (filter (\<lambda>t. Some (timer_id t) \<noteq> autocompleteTimeout s) (timers s)) = []"
    using assms(1) by (auto simp: timers_ok_def suggestion_timers_def filter_empty_conv)
  show "suggestion_timers s' = [new]"
    unfolding suggestion_timers_def t using none by (simp add: new_def)
  show "autocompleteTimeout s' = Some (next_timer s)"
    using assms(2) by (simp add: s'_def step_def handleAutocomplete_def Let_def
        clearTimeout_def setTimeout_def)
  show "clock s' = clock s" "fetching s' = fetching s"
    using assms(2) by (simp_all add: s'_def step_def handleAutocomplete_def Let_def
        clearTimeout_def setTimeout_def)
  have n: "next_timer s' = Suc (next_timer s)"
    using assms(2) by (simp add: s'_def step_def handleAutocomplete_def Let_def
        clearTimeout_def setTimeout_def)
  show "\<forall>t \<in> set (suggestion_timers s). gone (timer_id t) s'"
  proof
    fix t assume t_in: "t \<in> set (suggestion_timers s)"
    then have h: "autocompleteTimeout s = Some (timer_id t)" and lt: "timer_id t < next_timer s"
      using assms(1) by (auto simp: timers_ok_def suggestion_timers_def)
    show "gone (timer_id t) s'"
      unfolding gone_def t n using h lt by (auto simp: new_def)
  qed
qed

lemma timers_ok_new: "timers_ok (new_Terminal body)"
  by (simp add: timers_ok_def suggestion_timers_def new_Terminal_def)

lemma input_empty_closes:
  "trim v = [] \<Longrightarrow>
   \<not> autocompleteList_show (step parse s (InputChanged v)) \<and>
   selectedIndex (step parse s (InputChanged v)) = - 1"
  by (simp add: step_def handleAutocomplete_def Let_def hideAutocomplete_def)

lemma new_timer_waits:
  fixes parse :: "string \<Rightarrow> payload option"
  assumes "timers_ok s" and "trim v \<noteq> []" and "d < 300"
  shows "step parse (step parse (step parse s (InputChanged v)) (Elapse d)) (TimerFires (next_timer s)) =
         step parse (step parse s (InputChanged v)) (Elapse d)"
proof -
  let ?s' = "step parse s (InputChanged v)"
  let ?new = "\<lparr>timer_id = next_timer s, timer_due = clock s + 300,
               timer_callback = FetchSuggestions (trim v)\<rparr>"
  have old: "\<forall>t \<in> set (filter (\<lambda>t. Some (timer_id t) \<noteq> autocompleteTimeout s) (timers s)).
               \<not> timer_id t = next_timer s"
    using assms(1) by (auto simp: timers_ok_def)
  have "find (\<lambda>t. timer_id t = next_timer s) (timers ?s') = Some ?new"
    unfolding input_schedules(1)[OF assms(1,2)] using old by (intro find_last) simp_all
  then show ?thesis using assms(3) input_schedules(4)[OF assms(1,2), of parse]
    by (simp add: step_def[of parse _ "TimerFires _"] step_def[of parse _ "Elapse _"] timer_fires_def)
qed

lemma new_timer_fetches:
  fixes parse :: "string \<Rightarrow> payload option"
  assumes "timers_ok s" and "trim v \<noteq> []"
  shows "fetching (step parse (step parse (step parse s (InputChanged v)) (Elapse 300))
           (TimerFires (next_timer s))) = fetching s @ [trim v]"
proof -
  let ?s' = "step parse s (InputChanged v)"
  let ?new = "\<lparr>timer_id = next_timer s, timer_due = clock s + 300,
               timer_callback = FetchSuggestions (trim v)\<rparr>"
  have old: "\<forall>t \<in> set (filter (\<lambda>t. Some (timer_id t) \<noteq> autocompleteTimeout s) (timers s)).
               \<not> timer_id t = next_timer s"
    using assms(1) by (auto simp: timers_ok_def)
  have "find (\<lambda>t. timer_id t = next_timer s) (timers ?s') = Some ?new"
    unfolding input_schedules(1)[OF assms(1,2)] using old by (intro find_last) simp_all
  then show ?thesis 
    using input_schedules(4,5)[OF assms(1,2), of parse]
    by (simp add: step_def[of parse _ "TimerFires _"] step_def[of parse _ "Elapse _"] timer_fires_def
        run_callback_def)
qed

text \<open>
  Claim C6, as the code has it.  The constructor gives a state with proper timeouts
  and every event keeps it so.  In such a state, a change of the input to a text that
  is empty when trimmed closes the list and sets \<open>selectedIndex\<close> to \<open>-1\<close>.  A change
  to any other text leaves exactly one fetch timeout pending, the new one, due 300 ms
  later, for the trimmed text, and held by \<open>autocompleteTimeout\<close>; a fetch timeout
  that was pending before never fires, whatever happens later; the new one does not
  fire before 300 ms have passed, and when it fires then, the fetch for the trimmed
  text starts.
\<close>

theorem input_changed_debounce:
  assumes "timers_ok s"
  shows "timers_ok (new_Terminal body) \<and>
         timers_ok (step parse s e) \<and>
         (trim v = [] \<longrightarrow>
            \<not> autocompleteList_show (step parse s (InputChanged v)) \<and>
            selectedIndex (step parse s (InputChanged v)) = - 1) \<and>
         (trim v \<noteq> [] \<longrightarrow>
            suggestion_timers (step parse s (InputChanged v)) =
              [\<lparr>timer_id = next_timer s, timer_due = clock s + 300,
                timer_callback = FetchSuggestions (trim v)\<rparr>] \<and>
            autocompleteTimeout (step parse s (InputChanged v)) = Some (next_timer s) \<and>
            (\<forall>t \<in> set (suggestion_timers s). \<forall>es.
               step parse (run parse (step parse s (InputChanged v)) es) (TimerFires (timer_id t)) =
               run parse (step parse s (InputChanged v)) es) \<and>
            (\<forall>d < 300.
               step parse (step parse (step parse s (InputChanged v)) (Elapse d))
                 (TimerFires (next_timer s)) =
               step parse (step parse s (InputChanged v)) (Elapse d)) \<and>
            fetching (step parse (step parse (step parse s (InputChanged v)) (Elapse 300))
                        (TimerFires (next_timer s))) = fetching s @ [trim v])"
proof -
  have inv: "timers_ok (step parse s e)"
    using assms by (rule timers_ok_step)
  have scheduled: "suggestion_timers (step parse s (InputChanged v)) =
              [\<lparr>timer_id = next_timer s, timer_due = clock s + 300,
                timer_callback = FetchSuggestions (trim v)\<rparr>] \<and>
            autocompleteTimeout (step parse s (InputChanged v)) = Some (next_timer s)"
    if "trim v \<noteq> []"
    using input_schedules(2,3)[OF assms that] by simp
  have superseded: "step parse (run parse (step parse s (InputChanged v)) es) (TimerFires (timer_id t)) =
               run parse (step parse s (InputChanged v)) es"
    if "trim v \<noteq> []" and "t \<in> set (suggestion_timers s)" for t es
  proof -
    from input_schedules(6)[OF assms that(1), of parse] that(2)
    have "gone (timer_id t) (step parse s (InputChanged v))" by blast
    then have "gone (timer_id t) (run parse (step parse s (InputChanged v)) es)"
      by (rule gone_run)
    then show ?thesis by (rule gone_never_fires)
  qed
  show ?thesis
    using timers_ok_new inv input_empty_closes scheduled superseded
      new_timer_waits[OF assms] new_timer_fetches[OF assms]
    by blast
qed

theorem input_changed_debounce_witness:
  "timers waiting =
     [\<lparr>timer_id = 1, timer_due = 300, timer_callback = FetchSuggestions ''M''\<rparr>] \<and>
   next_timer waiting = 2 \<and> autocompleteTimeout waiting = Some 1 \<and>
   trim '''' = [] \<and> trim ''Mo'' \<noteq> [] \<and>
   \<lparr>timer_id = 1, timer_due = 300, timer_callback = FetchSuggestions ''M''\<rparr>
     \<in> set (suggestion_timers waiting) \<and> (100 :: nat) < 300 \<and>
   \<not> autocompleteList_show (step chat_parse waiting (InputChanged '''')) \<and>
   suggestion_timers (step chat_parse waiting (InputChanged ''Mo'')) =
     [\<lparr>timer_id = 2, timer_due = 300, timer_callback = FetchSuggestions ''Mo''\<rparr>] \<and>
   step chat_parse (run chat_parse (step chat_parse waiting (InputChanged ''Mo'')) [Elapse 300])
     (TimerFires 1) =
     run chat_parse (step chat_parse waiting (InputChanged ''Mo'')) [Elapse 300] \<and>
   step chat_parse (step chat_parse (step chat_parse waiting (InputChanged ''Mo'')) (Elapse 100))
     (TimerFires 2) =
     step chat_parse (step chat_parse waiting (InputChanged ''Mo'')) (Elapse 100) \<and>
   fetching (step chat_parse (step chat_parse (step chat_parse waiting (InputChanged ''Mo''))
               (Elapse 300)) (TimerFires 2)) = [''Mo'']"
proof -
  have ok: "timers_ok waiting"
    by code_simp
  have blank: "trim '''' = []"
    by code_simp
  have query: "trim ''Mo'' \<noteq> []" "trim ''Mo'' = ''Mo''"
    by code_simp+
  have pending: "\<lparr>timer_id = 1, timer_due = 300, timer_callback = FetchSuggestions ''M''\<rparr>
      \<in> set (suggestion_timers waiting)"
    by code_simp
  have early: "(100 :: nat) < 300"
    by simp
  have start: "next_timer waiting = 2" "clock waiting = 0" "fetching waiting = []"
    by code_simp+
  from input_changed_debounce[OF ok, of "[]" chat_parse Blur "''''"] blank
  have closed: "\<not> autocompleteList_show (step chat_parse waiting (InputChanged ''''))"
    by blast
  note inst = input_changed_debounce[OF ok, of "[]" chat_parse Blur "''Mo''"]
  from inst query(1)
  have scheduled: "suggestion_timers (step chat_parse waiting (InputChanged ''Mo'')) =
      [\<lparr>timer_id = next_timer waiting, timer_due = clock waiting + 300,
        timer_callback = FetchSuggestions (trim ''Mo'')\<rparr>]"
    by blast
  from inst query(1)
  have "\<forall>t \<in> set (suggestion_timers waiting). \<forall>es.
      step chat_parse (run chat_parse (step chat_parse waiting (InputChanged ''Mo'')) es)
        (TimerFires (timer_id t)) =
      run chat_parse (step chat_parse waiting (InputChanged ''Mo'')) es"
    by blast
  from bspec[OF this pending, THEN spec, of "[Elapse 300]"]
  have superseded: "step chat_parse
      (run chat_parse (step chat_parse waiting (InputChanged ''Mo'')) [Elapse 300]) (TimerFires 1) =
      run chat_parse (step chat_parse waiting (InputChanged ''Mo'')) [Elapse 300]"
    by simp
  from inst query(1)
  have "\<forall>d < 300. step chat_parse
      (step chat_parse (step chat_parse waiting (InputChanged ''Mo'')) (Elapse d))
        (TimerFires (next_timer waiting)) =
      step chat_parse (step chat_parse waiting (InputChanged ''Mo'')) (Elapse d)"
    by blast
  with early have waits: "step chat_parse
      (step chat_parse (step chat_parse waiting (InputChanged ''Mo'')) (Elapse 100))
        (TimerFires (next_timer waiting)) =
      step chat_parse (step chat_parse waiting (InputChanged ''Mo'')) (Elapse 100)"
    by blast
  from inst query(1)
  have fetched: "fetching (step chat_parse (step chat_parse
      (step chat_parse waiting (InputChanged ''Mo'')) (Elapse 300))
        (TimerFires (next_timer waiting))) = fetching waiting @ [trim ''Mo'']"
    by blast
  have held: "timers waiting =
      [\<lparr>timer_id = 1, timer_due = 300, timer_callback = FetchSuggestions ''M''\<rparr>]"
    "autocompleteTimeout waiting = Some 1"
    by code_simp+
  show ?thesis
    using held blank query(1) pending early closed scheduled superseded waits fetched
    by (simp add: start query(2))
qed

text \<open>
  Claim C6 as stated fails: after a change to an empty input the list does not stay
  closed.  A fetch that was under way when the input was emptied opens the list when
  it brings suggestions, with no later input at all.
\<close>

theorem stale_fetch_reopens_list:
  "\<not> autocompleteList_show
       (run chat_parse (new_Terminal [])
          [InputChanged ''M'', Elapse 300, TimerFires 1, InputChanged '''']) \<and>
   autocompleteList_show
     (run chat_parse (new_Terminal [])
        [InputChanged ''M'', Elapse 300, TimerFires 1, InputChanged '''',
         SuggestSettled 0 (SuggestData (Some [mona_lisa]))])"
  by code_simp

end
